theory Spec2Isabelle
  imports Complex_Main "HOL-Library.AList"
begin

section \<open>Data model of \<open>src/index.ts\<close> (the collections version of the extension)\<close>

text \<open>
  A JavaScript \<open>number\<close>, as far as this module uses one: it is copied, compared with
  \<open><\<close> and \<open>>\<close>, and tested with \<open>isNaN\<close>. Finite values are read as the real number
  they denote; every comparison with \<open>NaN\<close> is false.
\<close>

datatype jsnum = NaN | NegInf | Num real | PosInf

fun js_lt :: "jsnum \<Rightarrow> jsnum \<Rightarrow> bool" where
  "js_lt NaN _ = False"
| "js_lt _ NaN = False"
| "js_lt (Num a) (Num b) = (a < b)"
| "js_lt NegInf NegInf = False"
| "js_lt NegInf _ = True"
| "js_lt _ NegInf = False"
| "js_lt PosInf _ = False"
| "js_lt (Num a) PosInf = True"

definition js_gt :: "jsnum \<Rightarrow> jsnum \<Rightarrow> bool" where
  "js_gt a b = js_lt b a"

definition js_le :: "jsnum \<Rightarrow> jsnum \<Rightarrow> bool" where
  "js_le a b = (a \<noteq> NaN \<and> b \<noteq> NaN \<and> \<not> js_lt b a)"

definition isNaN :: "jsnum \<Rightarrow> bool" where
  "isNaN v = (v = NaN)"

text \<open>\<open>interface SliderModel\<close>; the fields carry the prefix \<open>s_\<close>.\<close>

record SliderModel =
  s_name :: string
  s_property :: string
  s_min :: string
  s_max :: string
  s_step :: string
  s_value :: jsnum
  s_enabled :: bool

text \<open>\<open>interface SliderCollection\<close>.\<close>

record SliderCollection =
  active :: bool
  name :: string
  sliders :: "SliderModel list"
  presets :: "string list"

text \<open>\<open>interface ExtensionSettings\<close>; only the key \<open>collections\<close> is read by the module.\<close>

record ExtensionSettings =
  collections :: "SliderCollection list"

text \<open>
  What \<open>context.extensionSettings\<close> holds under \<open>MODULE_NAME\<close> when \<open>getSettings\<close> is
  called: nothing (a falsy entry), an object without the key \<open>collections\<close>, or an object
  with a collection list.
\<close>

datatype GlobalSettings = Absent | NoCollectionsKey | Stored "SliderCollection list"

definition defaultSettings :: ExtensionSettings where
  "defaultSettings =
     \<lparr>collections = [\<lparr>active = True, name = ''Default'', sliders = [], presets = []\<rparr>]\<rparr>"

section \<open>The settings store accessor\<close>

text \<open>
  \<open>getSettings\<close>: install the defaults when the namespace is absent, backfill the missing
  key, push the default collection into an empty list, and activate the first collection
  when \<open>some(c => c.active)\<close> is false. \<open>defaultSettings\<close> is read as declared: the
  accessor reads it only for an absent namespace, a missing key or an empty list, none of
  which occurs again once a call has installed a collection list.
\<close>

definition getSettings :: "GlobalSettings \<Rightarrow> ExtensionSettings" where
  "getSettings g =
     (let cs0 = (case g of
                   Absent \<Rightarrow> collections defaultSettings
                 | NoCollectionsKey \<Rightarrow> collections defaultSettings
                 | Stored cs \<Rightarrow> cs);
          cs1 = (if length cs0 = 0 then cs0 @ [collections defaultSettings ! 0] else cs0);
          cs2 = (if \<not> list_ex active cs1 then cs1[0 := (cs1 ! 0)\<lparr>active := True\<rparr>] else cs1)
      in \<lparr>collections = cs2\<rparr>)"

section \<open>The host: browser builtins, libraries and the SillyTavern context\<close>

text \<open>
  Values of the \<open>yaml\<close> package. The own keys of a JavaScript object are the list of its
  key/value pairs in insertion order, each key once; writing an own key is
  \<open>AList.update k v\<close>, which overwrites in place or appends. (JavaScript enumerates keys
  that are array indices first; the statements below read an object key by key, through
  \<open>map_of\<close>, where the order does not count.)
\<close>

datatype YamlValue =
    YNull
  | YBool bool
  | YNumber jsnum
  | YString string
  | YSeq "YamlValue list"
  | YMap "(string \<times> YamlValue) list"

type_synonym JsObject = "(string \<times> YamlValue) list"

text \<open>
  A plain object as the request handler builds one: its own keys and its prototype. An
  object literal has the prototype \<open>Object.prototype\<close>, and the setter of the accessor
  \<open>Object.prototype.__proto__\<close> can replace it by a parsed object or array, or by \<open>null\<close>.
\<close>

datatype Prototype = ObjectPrototype | NullPrototype | ValuePrototype YamlValue

record PlainObject =
  own_keys :: JsObject
  prototype :: Prototype

definition empty_object :: PlainObject where
  "empty_object = \<lparr>own_keys = [], prototype = ObjectPrototype\<rparr>"

text \<open>
  \<open>obj[k] = v\<close>, also as \<open>Object.assign\<close> performs it. The assignment writes an own key
  (a property inherited from \<open>Object.prototype\<close>, from \<open>Array.prototype\<close> or from a parsed
  object is a writable data property, which the own key shadows), with one exception:
  for the key \<open>__proto__\<close> it reaches the setter of \<open>Object.prototype\<close> when the object has
  no own key \<open>__proto__\<close>, its prototype is not \<open>null\<close>, and its prototype is not a parsed
  object with an own key \<open>__proto__\<close> (which the \<open>yaml\<close> package defines as a data
  property). The setter makes an object, an array or \<open>null\<close> the new prototype and
  ignores every other value; it adds no key.
\<close>

definition reaches_setter :: "PlainObject \<Rightarrow> bool" where
  "reaches_setter obj =
     (map_of (own_keys obj) ''__proto__'' = None
      \<and> (case prototype obj of
            ObjectPrototype \<Rightarrow> True
          | NullPrototype \<Rightarrow> False
          | ValuePrototype (YMap m) \<Rightarrow> map_of m ''__proto__'' = None
          | ValuePrototype _ \<Rightarrow> True))"

definition set_property :: "string \<Rightarrow> YamlValue \<Rightarrow> PlainObject \<Rightarrow> PlainObject" where
  "set_property k v obj =
     (if k = ''__proto__'' \<and> reaches_setter obj then
        (case v of
           YMap m \<Rightarrow> obj\<lparr>prototype := ValuePrototype v\<rparr>
         | YSeq xs \<Rightarrow> obj\<lparr>prototype := ValuePrototype v\<rparr>
         | YNull \<Rightarrow> obj\<lparr>prototype := NullPrototype\<rparr>
         | _ \<Rightarrow> obj)
      else obj\<lparr>own_keys := AList.update k v (own_keys obj)\<rparr>)"

text \<open>
  What \<open>JSON.parse\<close> returns for an import file: an array (its elements read as slider
  models, as the source's cast does) or any other value.
\<close>

datatype Json = JArray "SliderModel list" | JNotArray

text \<open>
  Everything the module reads from outside: the builtins \<open>parseFloat\<close>, \<open>CSS.escape\<close> and
  \<open>JSON.parse\<close> (\<open>None\<close> when it throws), the \<open>yaml\<close> package (\<open>yaml_parse\<close> is \<open>None\<close> when
  it throws; \<open>yaml_stringify\<close> is given the object with its prototype), \<open>context.mainApi\<close>, the two fields of \<open>chatCompletionSettings\<close>, whether
  \<open>.custom_sliders_container\<close> exists or can be inserted after a native range block, and
  the ids of the elements of the document outside that container. The elements that
  \<open>getUIElements\<close> casts to non-null are taken to exist.
\<close>

record Host =
  parseFloat :: "string \<Rightarrow> jsnum"
  css_escape :: "string \<Rightarrow> string"
  json_parse :: "string \<Rightarrow> Json option"
  yaml_parse :: "string \<Rightarrow> YamlValue option"
  yaml_stringify :: "PlainObject \<Rightarrow> string"
  main_api :: string
  source_setting :: string
  preset_settings_openai :: string
  has_container :: bool
  document_ids :: "string list"

text \<open>
  The messages of the source, by level: \<open>'Invalid JSON file format.'\<close>,
  \<open>'Failed to parse JSON file.'\<close>, \<open>'Collection with this name already exists.'\<close>,
  \<open>`Imported ${n} sliders into collection "${name}".`\<close>,
  \<open>'Cannot delete the last collection.'\<close>, \<open>'No Chat Completion preset selected.'\<close>,
  \<open>`The preset will be unbound from another collection "${name}".`\<close>,
  \<open>`Selecting the preset "${preset}" will now automatically pick the sliders collection
  "${name}".`\<close> and \<open>'Duplicate slider property name: ' + property\<close>.
\<close>

datatype Message =
    InvalidJsonFormat
  | FailedToParseJson
  | CollectionExists
  | Imported nat string
  | CannotDeleteLast
  | NoPresetSelected
  | UnboundFromOther string
  | NowPicks string string
  | DuplicateProperty string

text \<open>One range and number input pair of the live control panel.\<close>

record Control =
  c_title :: string
  c_id :: string
  c_min :: string
  c_max :: string
  c_step :: string
  c_value :: jsnum
  c_hidden :: bool

text \<open>
  What a handler does besides changing the settings: \<open>toastr\<close> calls,
  \<open>saveSettingsDebounced()\<close>, and what it writes into the page: the options of the
  collection dropdown (name, selected), the \<open>toggleEnabled\<close> class of the bind button, the
  rows of the config list, the content of the live control panel, whether the hint shows.
\<close>

datatype Effect =
    ToastError Message
  | ToastWarning Message
  | ToastInfo Message
  | ToastSuccess Message
  | SaveSettingsDebounced
  | CollectionOptions "(string \<times> bool) list"
  | BindToggle bool
  | ConfigList "SliderModel list"
  | LivePanel "Control list"
  | Hint bool

text \<open>
  \<open>xs.find(p)\<close> returns the first element that satisfies \<open>p\<close> and the handlers then write
  to that object; \<open>findIndex\<close> is its position, so that the write is a list update and
  \<open>a !== b\<close> between two found objects compares positions.
\<close>

fun findIndex :: "('a \<Rightarrow> bool) \<Rightarrow> 'a list \<Rightarrow> nat option" where
  "findIndex P [] = None"
| "findIndex P (x # xs) = (if P x then Some 0 else map_option Suc (findIndex P xs))"

section \<open>Rendering\<close>

text \<open>The two comparisons of \<open>renderCompletionSliders\<close> that write \<open>slider.value\<close>.\<close>

definition clampValue :: "Host \<Rightarrow> SliderModel \<Rightarrow> SliderModel" where
  "clampValue h s =
     (let s1 = (if js_lt (s_value s) (parseFloat h (s_min s))
                then s\<lparr>s_value := parseFloat h (s_min s)\<rparr> else s)
      in if js_gt (s_value s1) (parseFloat h (s_max s1))
         then s1\<lparr>s_value := parseFloat h (s_max s1)\<rparr> else s1)"

definition control_of :: "Host \<Rightarrow> string \<Rightarrow> SliderModel \<Rightarrow> Control" where
  "control_of h sliderId s =
     \<lparr>c_title = s_name s, c_id = sliderId, c_min = s_min s, c_max = s_max s,
      c_step = s_step s, c_value = s_value s,
      c_hidden = (source_setting h \<noteq> ''custom'')\<rparr>"

text \<open>
  The body of \<open>activeCollection.sliders.forEach\<close> in \<open>renderCompletionSliders\<close>. \<open>ids\<close> are
  the ids in the document: a control appended to the container adds the ids of its range
  input and of its number input. The result is the sliders as the loop leaves them, the
  controls appended, and the warnings.
\<close>

fun renderEach ::
  "Host \<Rightarrow> string list \<Rightarrow> SliderModel list \<Rightarrow> SliderModel list \<times> Control list \<times> Effect list" where
  "renderEach h ids [] = ([], [], [])"
| "renderEach h ids (s # ss) =
     (if \<not> s_enabled s \<or> s_property s = [] \<or> s_name s = [] then
        (case renderEach h ids ss of (ss', cs, es) \<Rightarrow> (s # ss', cs, es))
      else
        (let s' = clampValue h s;
             sliderId = css_escape h (''custom_slider_'' @ s_property s')
         in if sliderId \<in> set ids then
              (case renderEach h ids ss of
                 (ss', cs, es) \<Rightarrow> (s' # ss', cs, ToastWarning (DuplicateProperty (s_property s')) # es))
            else
              (case renderEach h (sliderId # (sliderId @ ''_number'') # ids) ss of
                 (ss', cs, es) \<Rightarrow> (s' # ss', control_of h sliderId s' # cs, es))))"

text \<open>What the loop leaves of one slider: skipped, or with its value clamped.\<close>

definition rendered :: "Host \<Rightarrow> SliderModel \<Rightarrow> SliderModel" where
  "rendered h s =
     (if \<not> s_enabled s \<or> s_property s = [] \<or> s_name s = [] then s else clampValue h s)"

definition renderCompletionSliders ::
  "Host \<Rightarrow> ExtensionSettings \<Rightarrow> ExtensionSettings \<times> Effect list" where
  "renderCompletionSliders h settings =
     (if \<not> has_container h then (settings, [])
      else
        (let cs = collections settings in
         case findIndex active cs of
           None \<Rightarrow> (settings, [LivePanel []])
         | Some a \<Rightarrow>
             (case renderEach h (document_ids h) (sliders (cs ! a)) of
                (ss', ctrls, es) \<Rightarrow>
                  (settings\<lparr>collections := cs[a := (cs ! a)\<lparr>sliders := ss'\<rparr>]\<rparr>,
                   es @ [LivePanel ctrls]))))"

definition renderHint :: "Host \<Rightarrow> Effect" where
  "renderHint h = Hint (main_api h \<noteq> ''openai'' \<or> source_setting h \<noteq> ''custom'')"

definition renderSliderConfigs ::
  "Host \<Rightarrow> ExtensionSettings \<Rightarrow> ExtensionSettings \<times> Effect list" where
  "renderSliderConfigs h settings =
     (let cs = collections settings in
      case findIndex active cs of
        None \<Rightarrow> (settings, [ConfigList []])
      | Some a \<Rightarrow>
          (case renderCompletionSliders h settings of
             (settings', es) \<Rightarrow>
               (settings',
                [CollectionOptions (map (\<lambda>c. (name c, active c)) cs),
                 BindToggle (preset_settings_openai h \<in> set (presets (cs ! a))),
                 ConfigList (sliders (cs ! a))] @ es @ [renderHint h])))"

section \<open>Collection lifecycle handlers\<close>

text \<open>
  Every handler takes the settings object as it stands (the object installed under
  \<open>MODULE_NAME\<close>, which the handlers of \<open>addSettingsControls\<close> and \<open>setupEventHandlers\<close>
  capture and the others fetch with \<open>getSettings()\<close>) and returns it as the handler leaves
  it, with the effects in order. The answer of a dialog is an argument: \<open>None\<close> or the
  empty string for a dismissed input popup, a boolean for a confirmation.
\<close>

definition running :: "ExtensionSettings \<Rightarrow> ExtensionSettings" where
  "running st = getSettings (Stored (collections st))"

text \<open>The \<open>change\<close> listener of the collection dropdown; \<open>selectedName\<close> is its value.\<close>

definition collections_change ::
  "Host \<Rightarrow> string \<Rightarrow> ExtensionSettings \<Rightarrow> ExtensionSettings \<times> Effect list" where
  "collections_change h selectedName settings =
     apsnd (Cons SaveSettingsDebounced)
       (renderSliderConfigs h
          (settings\<lparr>collections :=
             map (\<lambda>c. c\<lparr>active := (name c = selectedName)\<rparr>) (collections settings)\<rparr>))"

text \<open>\<open>processImport\<close>; \<open>fileName\<close> only pre-fills the popup, \<open>response\<close> is its answer.\<close>

definition processImport ::
  "Host \<Rightarrow> string \<Rightarrow> SliderModel list \<Rightarrow> string option \<Rightarrow> ExtensionSettings
     \<Rightarrow> ExtensionSettings \<times> Effect list" where
  "processImport h fileName parsedSliders response settings =
     (case response of
        None \<Rightarrow> (settings, [])
      | Some newName \<Rightarrow>
          if newName = [] then (settings, [])
          else if find (\<lambda>c. name c = newName) (collections settings) \<noteq> None
          then (settings, [ToastWarning CollectionExists])
          else
            (case renderSliderConfigs h
                    (settings\<lparr>collections :=
                       map (\<lambda>c. c\<lparr>active := False\<rparr>) (collections settings)
                       @ [\<lparr>active = True, name = newName, sliders = parsedSliders,
                           presets = []\<rparr>]\<rparr>) of
               (settings', es) \<Rightarrow>
                 (settings',
                  SaveSettingsDebounced # es
                  @ [ToastSuccess (Imported (length parsedSliders) newName)])))"

text \<open>
  \<open>reader.onload\<close> of the import file input, for a selected file named \<open>fname\<close> whose text
  is \<open>content\<close>: the \<open>try\<close> block with its \<open>catch\<close>.
\<close>

definition importFile_onload ::
  "Host \<Rightarrow> string \<Rightarrow> string \<Rightarrow> string option \<Rightarrow> ExtensionSettings
     \<Rightarrow> ExtensionSettings \<times> Effect list" where
  "importFile_onload h fname content response settings =
     (let base = takeWhile (\<lambda>c. c \<noteq> CHR ''.'') fname;
          fileName = (if base = [] then ''imported'' else base)
      in case json_parse h content of
           None \<Rightarrow> (settings, [ToastError FailedToParseJson])
         | Some JNotArray \<Rightarrow> (settings, [ToastError InvalidJsonFormat])
         | Some (JArray parsedSliders) \<Rightarrow>
             processImport h fileName parsedSliders response settings)"

definition deleteCollection ::
  "Host \<Rightarrow> bool \<Rightarrow> ExtensionSettings \<Rightarrow> ExtensionSettings \<times> Effect list" where
  "deleteCollection h confirm st =
     (let settings = running st; cs = collections settings in
      if length cs = 1 then (settings, [ToastWarning CannotDeleteLast])
      else
        (case findIndex active cs of
           None \<Rightarrow> (settings, [])
         | Some collectionIndex \<Rightarrow>
             if \<not> confirm then (settings, [])
             else
               (let cs1 = take collectionIndex cs @ drop (Suc collectionIndex) cs;
                    cs2 = (case cs1 of [] \<Rightarrow> [] | c # r \<Rightarrow> c\<lparr>active := True\<rparr> # r)
                in apsnd (Cons SaveSettingsDebounced)
                     (renderSliderConfigs h (settings\<lparr>collections := cs2\<rparr>)))))"

definition createCollection ::
  "Host \<Rightarrow> string option \<Rightarrow> ExtensionSettings \<Rightarrow> ExtensionSettings \<times> Effect list" where
  "createCollection h response st =
     (let settings = running st in
      case response of
        None \<Rightarrow> (settings, [])
      | Some nm \<Rightarrow>
          if nm = [] then (settings, [])
          else if find (\<lambda>c. name c = nm) (collections settings) \<noteq> None
          then (settings, [ToastWarning CollectionExists])
          else
            apsnd (Cons SaveSettingsDebounced)
              (renderSliderConfigs h
                 (settings\<lparr>collections :=
                    map (\<lambda>c. c\<lparr>active := False\<rparr>) (collections settings)
                    @ [\<lparr>active = True, name = nm, sliders = [], presets = []\<rparr>]\<rparr>)))"

text \<open>
  \<open>bindToPreset\<close>. \<open>a\<close> is the position of \<open>activeCollection\<close>, \<open>w\<close> that of
  \<open>collectionWithPreset\<close>; \<open>splice(indexOf(presetName), 1)\<close> is \<open>remove1\<close>.
\<close>

definition bindToPreset :: "Host \<Rightarrow> ExtensionSettings \<Rightarrow> ExtensionSettings \<times> Effect list" where
  "bindToPreset h st =
     (let settings = running st; cs = collections settings;
          presetName = preset_settings_openai h in
      if presetName = [] then (settings, [ToastWarning NoPresetSelected])
      else
        (case findIndex active cs of
           None \<Rightarrow> (settings, [])
         | Some a \<Rightarrow>
             (case findIndex (\<lambda>c. presetName \<in> set (presets c)) cs of
                Some w \<Rightarrow>
                  (let cs1 = cs[w := (cs ! w)\<lparr>presets := remove1 presetName (presets (cs ! w))\<rparr>]
                   in if w \<noteq> a then
                        (case renderSliderConfigs h
                                (settings\<lparr>collections :=
                                   cs1[a := (cs1 ! a)\<lparr>presets := presets (cs1 ! a) @ [presetName]\<rparr>]\<rparr>) of
                           (settings', es) \<Rightarrow>
                             (settings',
                              ToastWarning (UnboundFromOther (name (cs ! w)))
                              # SaveSettingsDebounced # es))
                      else
                        apsnd (Cons SaveSettingsDebounced)
                          (renderSliderConfigs h (settings\<lparr>collections := cs1\<rparr>)))
              | None \<Rightarrow>
                  (case renderSliderConfigs h
                          (settings\<lparr>collections :=
                             cs[a := (cs ! a)\<lparr>presets := presets (cs ! a) @ [presetName]\<rparr>]\<rparr>) of
                     (settings', es) \<Rightarrow>
                       (settings',
                        ToastInfo (NowPicks presetName (name (cs ! a)))
                        # SaveSettingsDebounced # es)))))"

definition newSlider :: SliderModel where
  "newSlider =
     \<lparr>s_name = ''New Slider'', s_property = [], s_min = ''0'', s_max = ''1'',
      s_step = ''0.01'', s_value = Num 0, s_enabled = True\<rparr>"

definition createSlider :: "Host \<Rightarrow> ExtensionSettings \<Rightarrow> ExtensionSettings \<times> Effect list" where
  "createSlider h st =
     (let settings = running st; cs = collections settings in
      case findIndex active cs of
        None \<Rightarrow> (settings, [])
      | Some a \<Rightarrow>
          renderSliderConfigs h
            (settings\<lparr>collections := cs[a := (cs ! a)\<lparr>sliders := newSlider # sliders (cs ! a)\<rparr>]\<rparr>))"

section \<open>Handlers of a config row and of a live control\<close>

text \<open>
  \<open>renderSliderConfigs\<close> builds one row per slider of the active collection and every change
  of that list or of the active collection rebuilds the rows, so the row with index \<open>i\<close>
  holds the slider at position \<open>i\<close> of the active collection; there is no row, and no
  handler, for \<open>i\<close> past the end.
\<close>

definition with_sliders ::
  "(SliderModel list \<Rightarrow> SliderModel list) \<Rightarrow> ExtensionSettings \<Rightarrow> ExtensionSettings" where
  "with_sliders f settings =
     (let cs = collections settings in
      case findIndex active cs of
        None \<Rightarrow> settings
      | Some a \<Rightarrow> settings\<lparr>collections := cs[a := (cs ! a)\<lparr>sliders := f (sliders (cs ! a))\<rparr>]\<rparr>)"

text \<open>The six \<open>input\<close> and \<open>change\<close> listeners of a row, by the field they write.\<close>

datatype Field =
    NameField string
  | PropertyField string
  | MinField string
  | MaxField string
  | StepField string
  | EnabledField bool

fun write_field :: "Field \<Rightarrow> SliderModel \<Rightarrow> SliderModel" where
  "write_field (NameField v) s = s\<lparr>s_name := v\<rparr>"
| "write_field (PropertyField v) s = s\<lparr>s_property := v\<rparr>"
| "write_field (MinField v) s = s\<lparr>s_min := v\<rparr>"
| "write_field (MaxField v) s = s\<lparr>s_max := v\<rparr>"
| "write_field (StepField v) s = s\<lparr>s_step := v\<rparr>"
| "write_field (EnabledField v) s = s\<lparr>s_enabled := v\<rparr>"

definition rowInput_input ::
  "Host \<Rightarrow> nat \<Rightarrow> Field \<Rightarrow> ExtensionSettings \<Rightarrow> ExtensionSettings \<times> Effect list" where
  "rowInput_input h i fld settings =
     (case renderCompletionSliders h
             (with_sliders (\<lambda>ss. if i < length ss then ss[i := write_field fld (ss ! i)] else ss)
                settings) of
        (settings', es) \<Rightarrow> (settings', es @ [SaveSettingsDebounced]))"

definition deleteButton_click ::
  "Host \<Rightarrow> nat \<Rightarrow> bool \<Rightarrow> ExtensionSettings \<Rightarrow> ExtensionSettings \<times> Effect list" where
  "deleteButton_click h i confirm settings =
     (if \<not> confirm then (settings, [])
      else
        (case findIndex active (collections settings) of
           None \<Rightarrow> (settings, [])
         | Some a \<Rightarrow>
             (case renderSliderConfigs h
                     (with_sliders (\<lambda>ss. take i ss @ drop (Suc i) ss) settings) of
                (settings', es) \<Rightarrow> (settings', es @ [SaveSettingsDebounced]))))"

definition upButton_click ::
  "Host \<Rightarrow> nat \<Rightarrow> ExtensionSettings \<Rightarrow> ExtensionSettings \<times> Effect list" where
  "upButton_click h i settings =
     (if i > 0 then
        (case findIndex active (collections settings) of
           None \<Rightarrow> (settings, [])
         | Some a \<Rightarrow>
             (case renderSliderConfigs h
                     (with_sliders
                        (\<lambda>ss. if i < length ss
                              then (let temp = ss ! (i - 1) in (ss[i - 1 := ss ! i])[i := temp])
                              else ss)
                        settings) of
                (settings', es) \<Rightarrow> (settings', es @ [SaveSettingsDebounced])))
      else (settings, []))"

definition downButton_click ::
  "Host \<Rightarrow> nat \<Rightarrow> ExtensionSettings \<Rightarrow> ExtensionSettings \<times> Effect list" where
  "downButton_click h i settings =
     (let cs = collections settings in
      case findIndex active cs of
        None \<Rightarrow> (settings, [])
      | Some a \<Rightarrow>
          if i < length (sliders (cs ! a)) - 1 then
            (case renderSliderConfigs h
                    (with_sliders
                       (\<lambda>ss. let temp = ss ! (i + 1) in (ss[i + 1 := ss ! i])[i := temp])
                       settings) of
               (settings', es) \<Rightarrow> (settings', es @ [SaveSettingsDebounced]))
          else (settings, []))"

text \<open>
  The \<open>input\<close> listener of the range input of a live control: \<open>text\<close> is the input's value.
\<close>

definition sliderInput_input ::
  "Host \<Rightarrow> nat \<Rightarrow> string \<Rightarrow> ExtensionSettings \<Rightarrow> ExtensionSettings \<times> Effect list" where
  "sliderInput_input h i text settings =
     (with_sliders
        (\<lambda>ss. if i < length ss then ss[i := (ss ! i)\<lparr>s_value := parseFloat h text\<rparr>] else ss)
        settings,
      [SaveSettingsDebounced])"

section \<open>The event bridge\<close>

text \<open>
  \<open>Object.assign(target, source)\<close>: the own keys of \<open>source\<close> are assigned to \<open>target\<close> in
  order.
\<close>

definition object_assign :: "PlainObject \<Rightarrow> JsObject \<Rightarrow> PlainObject" where
  "object_assign target source = foldl (\<lambda>obj (k, v). set_property k v obj) target source"

definition mergeYamlIntoObject :: "Host \<Rightarrow> PlainObject \<Rightarrow> string \<Rightarrow> PlainObject" where
  "mergeYamlIntoObject h obj yamlString =
     (if yamlString = [] then obj
      else
        (case yaml_parse h yamlString of
           None \<Rightarrow> obj
         | Some (YSeq items) \<Rightarrow>
             foldl (\<lambda>target item. case item of YMap m \<Rightarrow> object_assign target m | _ \<Rightarrow> target)
               obj items
         | Some (YMap m) \<Rightarrow> object_assign obj m
         | Some _ \<Rightarrow> obj))"

record ChatCompletionRequestData =
  chat_completion_source :: string
  custom_include_body :: string

text \<open>
  The \<open>reduce\<close> over the enabled sliders of the active collection, which starts from \<open>{}\<close>
  and assigns \<open>acc[slider.property] = slider.value\<close>: the object \<open>sliders\<close> of the request
  handler, and its own keys.
\<close>

definition slider_object :: "SliderModel list \<Rightarrow> PlainObject" where
  "slider_object ss =
     foldl (\<lambda>acc slider.
              if s_property slider \<noteq> [] \<and> \<not> isNaN (s_value slider)
              then set_property (s_property slider) (YNumber (s_value slider)) acc
              else acc)
       empty_object (filter s_enabled ss)"

definition slider_values :: "SliderModel list \<Rightarrow> JsObject" where
  "slider_values ss = own_keys (slider_object ss)"

text \<open>The object that the request handler hands to \<open>yaml.stringify\<close>, and its own keys.\<close>

definition customObject ::
  "Host \<Rightarrow> SliderCollection \<Rightarrow> ChatCompletionRequestData \<Rightarrow> PlainObject" where
  "customObject h activeCollection data =
     object_assign (mergeYamlIntoObject h empty_object (custom_include_body data))
       (slider_values (sliders activeCollection))"

definition customBody :: "Host \<Rightarrow> SliderCollection \<Rightarrow> ChatCompletionRequestData \<Rightarrow> JsObject" where
  "customBody h activeCollection data = own_keys (customObject h activeCollection data)"

text \<open>
  For the statements about the request body: a slider contributes when the \<open>reduce\<close>
  writes its pair (an assignment to \<open>__proto__\<close> writes none: the value is a number), and
  the value a key gets from a slider list is that of the last contributing slider with
  this property.
\<close>

definition contributes :: "SliderModel \<Rightarrow> bool" where
  "contributes s =
     (s_enabled s \<and> s_property s \<noteq> [] \<and> s_property s \<noteq> ''__proto__''
      \<and> \<not> isNaN (s_value s))"

definition injected :: "SliderModel list \<Rightarrow> string \<Rightarrow> YamlValue option" where
  "injected ss k =
     (let xs = filter (\<lambda>s. contributes s \<and> s_property s = k) ss
      in if xs = [] then None else Some (YNumber (s_value (last xs))))"

text \<open>The listener of \<open>CHAT_COMPLETION_SETTINGS_READY\<close>; it writes to \<open>data\<close> only.\<close>

definition on_CHAT_COMPLETION_SETTINGS_READY ::
  "Host \<Rightarrow> ExtensionSettings \<Rightarrow> ChatCompletionRequestData \<Rightarrow> ChatCompletionRequestData" where
  "on_CHAT_COMPLETION_SETTINGS_READY h settings data =
     (if chat_completion_source data \<noteq> ''custom'' then data
      else
        (case find active (collections settings) of
           None \<Rightarrow> data
         | Some activeCollection \<Rightarrow>
             data\<lparr>custom_include_body :=
                    yaml_stringify h (customObject h activeCollection data)\<rparr>))"

text \<open>The listener of \<open>OAI_PRESET_CHANGED_AFTER\<close>.\<close>

definition on_OAI_PRESET_CHANGED_AFTER ::
  "Host \<Rightarrow> ExtensionSettings \<Rightarrow> ExtensionSettings \<times> Effect list" where
  "on_OAI_PRESET_CHANGED_AFTER h settings =
     (let cs = collections settings; presetName = preset_settings_openai h in
      case findIndex active cs of
        None \<Rightarrow> (settings, [])
      | Some a \<Rightarrow>
          (case findIndex (\<lambda>c. presetName \<in> set (presets c)) cs of
             None \<Rightarrow> (settings, [])
           | Some w \<Rightarrow>
               if w \<noteq> a then
                 (let cs1 = cs[w := (cs ! w)\<lparr>active := True\<rparr>];
                      cs2 = cs1[a := (cs1 ! a)\<lparr>active := False\<rparr>]
                  in apsnd (Cons SaveSettingsDebounced)
                       (renderSliderConfigs h (settings\<lparr>collections := cs2\<rparr>)))
               else (settings, [])))"

text \<open>The listener of \<open>SETTINGS_UPDATED\<close>.\<close>

definition on_SETTINGS_UPDATED :: "Host \<Rightarrow> ExtensionSettings \<Rightarrow> ExtensionSettings \<times> Effect list" where
  "on_SETTINGS_UPDATED h settings = (settings, [renderHint h])"

text \<open>
  \<open>init\<close>: \<open>getSettings\<close>, then \<open>renderSliderConfigs\<close>, then \<open>saveSettingsDebounced\<close>
  (\<open>addSettingsControls\<close> and \<open>setupEventHandlers\<close> register the handlers above).
\<close>

definition init :: "Host \<Rightarrow> GlobalSettings \<Rightarrow> ExtensionSettings \<times> Effect list" where
  "init h g =
     (case renderSliderConfigs h (getSettings g) of
        (settings, es) \<Rightarrow> (settings, es @ [SaveSettingsDebounced]))"

section \<open>The lists that the lifecycle handlers write\<close>

text \<open>
  For the statements about the handlers: the settings as \<open>createCollection\<close> and
  \<open>processImport\<close> write them (every collection deactivated, the new one appended,
  active) and as \<open>deleteCollection\<close> writes them (the collection at position \<open>i\<close> spliced
  out, the first of the rest activated), before \<open>renderSliderConfigs\<close> runs.
\<close>

definition appended :: "string \<Rightarrow> SliderModel list \<Rightarrow> ExtensionSettings \<Rightarrow> ExtensionSettings" where
  "appended nm ss t =
     t\<lparr>collections := map (\<lambda>c. c\<lparr>active := False\<rparr>) (collections t)
                       @ [\<lparr>active = True, name = nm, sliders = ss, presets = []\<rparr>]\<rparr>"

definition removed :: "nat \<Rightarrow> ExtensionSettings \<Rightarrow> ExtensionSettings" where
  "removed i t =
     t\<lparr>collections :=
         (case take i (collections t) @ drop (Suc i) (collections t) of
            [] \<Rightarrow> [] | c # r \<Rightarrow> c\<lparr>active := True\<rparr> # r)\<rparr>"

section \<open>Invariants and reachable states\<close>

text \<open>The number of collections whose \<open>active\<close> flag is set.\<close>

definition active_count :: "ExtensionSettings \<Rightarrow> nat" where
  "active_count s = length (filter active (collections s))"

text \<open>The base invariant: the collection list is not empty and exactly one is active.\<close>

definition base_invariant :: "ExtensionSettings \<Rightarrow> bool" where
  "base_invariant s = (collections s \<noteq> [] \<and> active_count s = 1)"

definition names_distinct :: "ExtensionSettings \<Rightarrow> bool" where
  "names_distinct s = distinct (map name (collections s))"

text \<open>The collections whose \<open>presets\<close> list contains \<open>q\<close>.\<close>

definition holders :: "string \<Rightarrow> ExtensionSettings \<Rightarrow> SliderCollection list" where
  "holders q s = filter (\<lambda>c. q \<in> set (presets c)) (collections s)"

text \<open>How often \<open>q\<close> occurs in the \<open>presets\<close> lists of all collections together.\<close>

definition bound_count :: "string \<Rightarrow> ExtensionSettings \<Rightarrow> nat" where
  "bound_count q s = sum_list (map (\<lambda>c. count_list (presets c) q) (collections s))"

text \<open>No preset name occurs twice in the \<open>presets\<close> lists of all collections together.\<close>

definition presets_once :: "ExtensionSettings \<Rightarrow> bool" where
  "presets_once s = distinct (concat (map presets (collections s)))"

text \<open>
  The states the running module can be in: after \<open>init\<close> on a fresh install (no namespace,
  or a namespace of the version without collections), after \<open>init\<close> on a state that the
  module itself left behind, and after any handler. The dropdown offers the names of the
  collections, so \<open>collections_change\<close> runs with one of them.
\<close>

inductive reachable :: "ExtensionSettings \<Rightarrow> bool" where
  fresh: "reachable (fst (init h Absent))"
| upgraded: "reachable (fst (init h NoCollectionsKey))"
| reloaded: "reachable s \<Longrightarrow> reachable (fst (init h (Stored (collections s))))"
| created: "reachable s \<Longrightarrow> reachable (fst (createCollection h response s))"
| deleted: "reachable s \<Longrightarrow> reachable (fst (deleteCollection h confirm s))"
| selected: "reachable s \<Longrightarrow> selectedName \<in> set (map name (collections s))
     \<Longrightarrow> reachable (fst (collections_change h selectedName s))"
| imported: "reachable s \<Longrightarrow> reachable (fst (importFile_onload h fname content response s))"
| bound: "reachable s \<Longrightarrow> reachable (fst (bindToPreset h s))"
| preset_changed: "reachable s \<Longrightarrow> reachable (fst (on_OAI_PRESET_CHANGED_AFTER h s))"
| slider_created: "reachable s \<Longrightarrow> reachable (fst (createSlider h s))"
| row_input: "reachable s \<Longrightarrow> reachable (fst (rowInput_input h i fld s))"
| slider_deleted: "reachable s \<Longrightarrow> reachable (fst (deleteButton_click h i confirm s))"
| moved_up: "reachable s \<Longrightarrow> reachable (fst (upButton_click h i s))"
| moved_down: "reachable s \<Longrightarrow> reachable (fst (downButton_click h i s))"
| slider_input: "reachable s \<Longrightarrow> reachable (fst (sliderInput_input h i text s))"

section \<open>A host for the examples\<close>

text \<open>
  \<open>parseFloat\<close> on plain decimal literals: an optional sign, digits, an optional fraction,
  anything after them ignored, \<open>NaN\<close> when there is no digit. (No leading blanks, no
  exponent, no \<open>Infinity\<close>.)
\<close>

definition digit_of :: "char \<Rightarrow> nat option" where
  "digit_of c =
     (let n = of_char c :: nat in if 48 \<le> n \<and> n \<le> 57 then Some (n - 48) else None)"

fun digits :: "string \<Rightarrow> nat list \<times> string" where
  "digits [] = ([], [])"
| "digits (c # cs) =
     (case digit_of c of
        None \<Rightarrow> ([], c # cs)
      | Some d \<Rightarrow> (case digits cs of (ds, r) \<Rightarrow> (d # ds, r)))"

definition decimal :: "nat list \<Rightarrow> nat" where
  "decimal ds = foldl (\<lambda>a d. 10 * a + d) 0 ds"

definition parseFloat_decimal :: "string \<Rightarrow> jsnum" where
  "parseFloat_decimal s =
     (let neg = (case s of c # r \<Rightarrow> c = CHR ''-'' | [] \<Rightarrow> False);
          r0 = (case s of c # r \<Rightarrow> if c = CHR ''-'' \<or> c = CHR ''+'' then r else s | [] \<Rightarrow> s);
          ip = fst (digits r0);
          r1 = snd (digits r0);
          fp = (case r1 of c # r \<Rightarrow> if c = CHR ''.'' then fst (digits r) else [] | [] \<Rightarrow> [])
      in if ip = [] \<and> fp = [] then NaN
         else Num ((if neg then - 1 else 1) *
                   (real (decimal ip) + real (decimal fp) / 10 ^ length fp)))"

text \<open>
  The \<open>yaml\<close> package and \<open>JSON.parse\<close> at the texts and objects of the examples below (and
  at no other; the objects have the prototype \<open>Object.prototype\<close>): \<open>yaml.stringify({})\<close> is \<open>"{}\n"\<close>, \<open>yaml.stringify({temperature: 1.5})\<close> is
  \<open>"temperature: 1.5\n"\<close>, and \<open>yaml.parse\<close> reads each of them back; \<open>JSON.parse\<close> throws on
  \<open>{"a":\<close>, returns an object for \<open>{"a":1}\<close> and the empty array for \<open>[]\<close>.
\<close>

definition temperature_body :: JsObject where
  "temperature_body = [(''temperature'', YNumber (Num 1.5))]"

definition example_yaml_stringify :: "PlainObject \<Rightarrow> string" where
  "example_yaml_stringify obj =
     (if obj = empty_object then ''{}'' @ [CHR 0x0A]
      else if obj = \<lparr>own_keys = temperature_body, prototype = ObjectPrototype\<rparr>
      then ''temperature: 1.5'' @ [CHR 0x0A]
      else ''...'')"

definition example_yaml_parse :: "string \<Rightarrow> YamlValue option" where
  "example_yaml_parse text =
     (if text = ''{}'' @ [CHR 0x0A] then Some (YMap [])
      else if text = ''temperature: 1.5'' @ [CHR 0x0A] then Some (YMap temperature_body)
      else None)"

definition example_json_parse :: "string \<Rightarrow> Json option" where
  "example_json_parse text =
     (if text = ''[]'' then Some (JArray [])
      else if text = ''{\"a\":1}'' then Some JNotArray
      else None)"

text \<open>
  The example host: the custom source with the preset \<open>P1\<close> selected, the container in
  place, and no other element with a slider id in the document. \<open>CSS.escape\<close> leaves the
  ids of the examples (letters and underscores) as they are.
\<close>

definition example_host :: Host where
  "example_host =
     \<lparr>parseFloat = parseFloat_decimal, css_escape = (\<lambda>s. s),
      json_parse = example_json_parse, yaml_parse = example_yaml_parse,
      yaml_stringify = example_yaml_stringify, main_api = ''openai'',
      source_setting = ''custom'', preset_settings_openai = ''P1'',
      has_container = True, document_ids = []\<rparr>"

text \<open>The slider of the scenarios of the specification, and variants of it.\<close>

definition temp_slider :: SliderModel where
  "temp_slider =
     \<lparr>s_name = ''Temp'', s_property = ''temperature'', s_min = ''0'', s_max = ''2'',
      s_step = ''0.1'', s_value = Num 1.5, s_enabled = True\<rparr>"

definition unit_slider :: "jsnum \<Rightarrow> SliderModel" where
  "unit_slider v =
     \<lparr>s_name = ''X'', s_property = ''p'', s_min = ''0'', s_max = ''1'',
      s_step = ''0.01'', s_value = v, s_enabled = True\<rparr>"

definition collection_of :: "bool \<Rightarrow> string \<Rightarrow> SliderModel list \<Rightarrow> string list \<Rightarrow> SliderCollection" where
  "collection_of a n ss ps = \<lparr>active = a, name = n, sliders = ss, presets = ps\<rparr>"

text \<open>The settings with the single, active collection \<open>A\<close> that holds the given sliders.\<close>

definition example_settings :: "SliderModel list \<Rightarrow> ExtensionSettings" where
  "example_settings ss = \<lparr>collections = [collection_of True ''A'' ss []]\<rparr>"

definition custom_request :: "string \<Rightarrow> ChatCompletionRequestData" where
  "custom_request body = \<lparr>chat_completion_source = ''custom'', custom_include_body = body\<rparr>"

section \<open>Lemmas on finding, rendering and the invariants\<close>

lemma findIndex_Some:
  "findIndex P xs = Some i \<Longrightarrow> i < length xs \<and> P (xs ! i) \<and> (\<forall>j<i. \<not> P (xs ! j))"
proof (induction xs arbitrary: i)
  case Nil
  then show ?case by simp
next
  case (Cons x xs)
  show ?case
  proof (cases "P x")
    case True
    with Cons.prems show ?thesis by simp
  next
    case False
    with Cons.prems obtain k where k: "findIndex P xs = Some k" "i = Suc k" by auto
    from Cons.IH [OF k(1)] False k(2) show ?thesis
      by (auto simp: nth_Cons split: nat.splits)
  qed
qed

lemma findIndex_None: "(findIndex P xs = None) = (\<not> list_ex P xs)"
  by (induction xs) auto

lemma findIndex_Some_ex: "list_ex P xs \<Longrightarrow> \<exists>i. findIndex P xs = Some i"
  using findIndex_None [of P xs] by (cases "findIndex P xs") auto

lemma find_findIndex: "find P xs = map_option (\<lambda>i. xs ! i) (findIndex P xs)"
  by (induction xs) (auto simp: option.map_comp comp_def)

lemma findIndex_take:
  "findIndex P xs = Some i \<Longrightarrow> filter P (take i xs) = []"
proof -
  assume a: "findIndex P xs = Some i"
  from findIndex_Some [OF a] have "\<forall>x \<in> set (take i xs). \<not> P x"
    by (auto simp: in_set_conv_nth)
  then show ?thesis by (simp add: filter_empty_conv)
qed

lemma fst_renderEach: "fst (renderEach h ids ss) = map (rendered h) ss"
  by (induction ss arbitrary: ids) (simp_all add: rendered_def Let_def case_prod_beta)

lemma map_update_same: "f y = f (xs ! a) \<Longrightarrow> map f (xs[a := y]) = map f xs"
proof (cases "a < length xs")
  case True
  assume "f y = f (xs ! a)"
  with True show ?thesis by (metis list_update_id map_update nth_map)
next
  case False
  then have "length xs \<le> a" by simp
  then show ?thesis by (simp add: list_update_beyond)
qed

lemma with_sliders_active [simp]:
  "map active (collections (with_sliders f s)) = map active (collections s)"
  by (auto simp: with_sliders_def Let_def map_update_same split: option.splits)

lemma with_sliders_name [simp]:
  "map name (collections (with_sliders f s)) = map name (collections s)"
  by (auto simp: with_sliders_def Let_def map_update_same split: option.splits)

lemma with_sliders_presets [simp]:
  "map presets (collections (with_sliders f s)) = map presets (collections s)"
  by (auto simp: with_sliders_def Let_def map_update_same split: option.splits)

lemma fst_renderCompletionSliders:
  "fst (renderCompletionSliders h s) = (if has_container h then with_sliders (map (rendered h)) s else s)"
proof -
  have "\<And>a ss' ctrls es. renderEach h (document_ids h) (sliders (collections s ! a)) = (ss', ctrls, es)
     \<Longrightarrow> ss' = map (rendered h) (sliders (collections s ! a))"
    using fst_renderEach [of h "document_ids h"] by (metis fst_conv)
  then show ?thesis
    by (auto simp: renderCompletionSliders_def with_sliders_def Let_def split: option.splits prod.splits)
qed

lemma fst_renderSliderConfigs:
  "fst (renderSliderConfigs h s) = (if has_container h then with_sliders (map (rendered h)) s else s)"
proof (cases "findIndex active (collections s)")
  case None
  then show ?thesis by (simp add: renderSliderConfigs_def with_sliders_def)
next
  case (Some a)
  then show ?thesis
    using fst_renderCompletionSliders [of h s]
    by (simp add: renderSliderConfigs_def Let_def case_prod_beta)
qed

lemma render_active [simp]:
  "map active (collections (fst (renderSliderConfigs h s))) = map active (collections s)"
  by (simp add: fst_renderSliderConfigs)

lemma render_name [simp]:
  "map name (collections (fst (renderSliderConfigs h s))) = map name (collections s)"
  by (simp add: fst_renderSliderConfigs)

lemma render_presets [simp]:
  "map presets (collections (fst (renderSliderConfigs h s))) = map presets (collections s)"
  by (simp add: fst_renderSliderConfigs)

lemma renderC_active [simp]:
  "map active (collections (fst (renderCompletionSliders h s))) = map active (collections s)"
  by (simp add: fst_renderCompletionSliders)

lemma renderC_name [simp]:
  "map name (collections (fst (renderCompletionSliders h s))) = map name (collections s)"
  by (simp add: fst_renderCompletionSliders)

lemma renderC_presets [simp]:
  "map presets (collections (fst (renderCompletionSliders h s))) = map presets (collections s)"
  by (simp add: fst_renderCompletionSliders)

text \<open>Invariants read the flags, the names and the preset lists only.\<close>

lemma active_count_map: "active_count s = length (filter id (map active (collections s)))"
  by (simp add: active_count_def filter_map comp_def)

lemma nonempty_map: "(collections s \<noteq> []) = (map active (collections s) \<noteq> [])"
  by simp

lemma base_invariant_cong:
  "map active (collections s) = map active (collections s') \<Longrightarrow> base_invariant s = base_invariant s'"
  unfolding base_invariant_def active_count_map
  by (metis map_is_Nil_conv)

lemma names_distinct_cong:
  "map name (collections s) = map name (collections s') \<Longrightarrow> names_distinct s = names_distinct s'"
  by (simp add: names_distinct_def)

lemma presets_once_cong:
  "map presets (collections s) = map presets (collections s') \<Longrightarrow> presets_once s = presets_once s'"
  by (simp add: presets_once_def)

lemma running_id: "list_ex active (collections s) \<Longrightarrow> running s = s"
  by (cases "collections s") (auto simp: running_def getSettings_def Let_def)

lemma base_invariant_ex: "base_invariant s \<Longrightarrow> list_ex active (collections s)"
proof -
  assume "base_invariant s"
  then have "filter active (collections s) \<noteq> []"
    by (auto simp: base_invariant_def active_count_def)
  then show ?thesis by (induction "collections s" arbitrary: s) (auto simp: list_ex_iff filter_empty_conv)
qed

lemma findIndex_map: "findIndex P xs = findIndex id (map P xs)"
  by (induction xs) auto

lemma findIndex_with_sliders [simp]:
  "findIndex active (collections (with_sliders f s)) = findIndex active (collections s)"
  using findIndex_map [of active "collections (with_sliders f s)"]
    findIndex_map [of active "collections s"] by simp

lemma with_sliders_collections:
  "findIndex active (collections s) = Some a \<Longrightarrow>
   collections (with_sliders f s)
     = (collections s)[a := (collections s ! a)\<lparr>sliders := f (sliders (collections s ! a))\<rparr>]"
  by (simp add: with_sliders_def Let_def)

lemma with_sliders_twice:
  "with_sliders g (with_sliders f s) = with_sliders (\<lambda>ss. g (f ss)) s"
proof (cases "findIndex active (collections s)")
  case None
  then show ?thesis by (simp add: with_sliders_def)
next
  case (Some a)
  then have a: "a < length (collections s)" using findIndex_Some by blast
  have "findIndex active (collections (with_sliders f s)) = Some a" using Some by simp
  then have "with_sliders g (with_sliders f s)
      = (with_sliders f s)\<lparr>collections := (collections (with_sliders f s))
           [a := (collections (with_sliders f s) ! a)
                   \<lparr>sliders := g (sliders (collections (with_sliders f s) ! a))\<rparr>]\<rparr>"
    by (simp add: with_sliders_def [of g] Let_def)
  also have "\<dots> = with_sliders (\<lambda>ss. g (f ss)) s"
    using Some a by (simp add: with_sliders_def Let_def)
  finally show ?thesis .
qed

lemma rendered_value_only: "rendered h x = x\<lparr>s_value := s_value (rendered h x)\<rparr>"
  by (simp add: rendered_def clampValue_def Let_def)

lemma fst_render_with:
  "fst (renderSliderConfigs h (with_sliders f s))
     = with_sliders (\<lambda>ss. map (if has_container h then rendered h else id) (f ss)) s"
  by (simp add: fst_renderSliderConfigs with_sliders_twice)

lemma fst_upButton_click:
  "0 < i \<Longrightarrow> findIndex active (collections s) = Some a \<Longrightarrow>
   fst (upButton_click h i s)
     = with_sliders (\<lambda>ss. map (if has_container h then rendered h else id)
                          (if i < length ss then (ss[i - 1 := ss ! i])[i := ss ! (i - 1)] else ss)) s"
  using fst_render_with [of h "\<lambda>ss. if i < length ss
        then (ss[i - 1 := ss ! i])[i := ss ! (i - 1)] else ss" s]
  unfolding upButton_click_def Let_def by (simp add: case_prod_beta)

lemma fst_downButton_click:
  "findIndex active (collections s) = Some a \<Longrightarrow> i < length (sliders (collections s ! a)) - 1 \<Longrightarrow>
   fst (downButton_click h i s)
     = with_sliders (\<lambda>ss. map (if has_container h then rendered h else id)
                          ((ss[i + 1 := ss ! i])[i := ss ! (i + 1)])) s"
  using fst_render_with [of h "\<lambda>ss. (ss[i + 1 := ss ! i])[i := ss ! (i + 1)]" s]
  unfolding downButton_click_def Let_def by (simp add: case_prod_beta)

lemma parseFloat_example [simp]:
  "parseFloat example_host ''0'' = Num 0"
  "parseFloat example_host ''1'' = Num 1"
  "parseFloat example_host ''2'' = Num 2"
  "parseFloat example_host [] = NaN"
  by (simp_all add: example_host_def parseFloat_decimal_def digit_of_def decimal_def)

lemma rendered_unit_slider [simp]:
  "0 \<le> v \<Longrightarrow> v \<le> 1 \<Longrightarrow> rendered example_host (unit_slider (Num v)) = unit_slider (Num v)"
  by (simp add: rendered_def clampValue_def unit_slider_def js_gt_def)

lemma set_property_own:
  "k \<noteq> ''__proto__'' \<Longrightarrow>
   set_property k v obj = obj\<lparr>own_keys := AList.update k v (own_keys obj)\<rparr>"
  by (simp add: set_property_def)

lemma slider_object_snoc:
  "slider_object (ss @ [s])
     = (if s_enabled s \<and> s_property s \<noteq> [] \<and> \<not> isNaN (s_value s)
        then set_property (s_property s) (YNumber (s_value s)) (slider_object ss)
        else slider_object ss)"
  by (simp add: slider_object_def)

lemma slider_object_plain:
  "prototype (slider_object ss) = ObjectPrototype
   \<and> map_of (own_keys (slider_object ss)) ''__proto__'' = None"
proof (induction ss rule: rev_induct)
  case Nil
  then show ?case by (simp add: slider_object_def empty_object_def)
next
  case (snoc s ss)
  then show ?case
    by (simp add: slider_object_snoc set_property_def reaches_setter_def update_conv')
qed

lemma slider_values_snoc:
  "slider_values (ss @ [s])
     = (if contributes s
        then AList.update (s_property s) (YNumber (s_value s)) (slider_values ss)
        else slider_values ss)"
  using slider_object_plain [of ss]
  by (simp add: slider_values_def slider_object_snoc contributes_def set_property_def
      reaches_setter_def)

lemma slider_values_Nil: "slider_values [] = []"
  by (simp add: slider_values_def slider_object_def empty_object_def)

lemma injected_snoc:
  "injected (ss @ [s]) k
     = (if contributes s \<and> s_property s = k then Some (YNumber (s_value s)) else injected ss k)"
  by (simp add: injected_def Let_def)

lemma map_of_slider_values: "map_of (slider_values ss) k = injected ss k"
proof (induction ss rule: rev_induct)
  case Nil
  then show ?case by (simp add: slider_values_Nil injected_def)
next
  case (snoc s ss)
  then show ?case by (simp add: slider_values_snoc injected_snoc update_conv')
qed

lemma distinct_slider_values: "distinct (map fst (slider_values ss))"
proof (induction ss rule: rev_induct)
  case Nil
  then show ?case by (simp add: slider_values_Nil)
next
  case (snoc s ss)
  then show ?case by (simp add: slider_values_snoc distinct_update)
qed

lemma slider_values_no_proto: "''__proto__'' \<notin> fst ` set (slider_values ss)"
  using slider_object_plain [of ss] by (simp add: slider_values_def map_of_eq_None_iff)

lemma object_assign_Nil: "object_assign target [] = target"
  by (simp add: object_assign_def)

lemma object_assign_Cons:
  "object_assign target ((k, v) # source) = object_assign (set_property k v target) source"
  by (simp add: object_assign_def)

lemma map_of_object_assign:
  "distinct (map fst source) \<Longrightarrow> ''__proto__'' \<notin> fst ` set source \<Longrightarrow>
   map_of (own_keys (object_assign target source)) = map_of (own_keys target) ++ map_of source
   \<and> prototype (object_assign target source) = prototype target"
proof (induction source arbitrary: target)
  case Nil
  then show ?case by (simp add: object_assign_Nil)
next
  case (Cons p source)
  obtain k v where p: "p = (k, v)" by (cases p)
  from Cons.prems p have k: "k \<notin> dom (map_of source)" and d: "distinct (map fst source)"
    and n: "''__proto__'' \<notin> fst ` set source" and kp: "k \<noteq> ''__proto__''"
    by (auto simp: dom_map_of_conv_image_fst)
  let ?t = "target\<lparr>own_keys := AList.update k v (own_keys target)\<rparr>"
  have s: "object_assign target (p # source) = object_assign ?t source"
    by (simp add: p object_assign_Cons set_property_own [OF kp])
  from Cons.IH [OF d n, of ?t]
  have ih: "map_of (own_keys (object_assign ?t source))
              = map_of (AList.update k v (own_keys target)) ++ map_of source"
    and pr: "prototype (object_assign ?t source) = prototype target"
    by simp_all
  have "map_of (AList.update k v (own_keys target)) ++ map_of source
          = (map_of (own_keys target) ++ map_of source)(k \<mapsto> v)"
    using k by (simp add: update_conv' map_add_upd_left)
  also have "\<dots> = map_of (own_keys target) ++ map_of (p # source)"
    by (simp add: p)
  finally have "map_of (own_keys (object_assign ?t source))
                  = map_of (own_keys target) ++ map_of (p # source)"
    using ih by (rule trans [rotated])
  with pr show ?case unfolding s by blast
qed

lemma map_of_customBody:
  "map_of (customBody h c data) k
     = (case injected (sliders c) k of
          Some v \<Rightarrow> Some v
        | None \<Rightarrow>
            map_of (own_keys (mergeYamlIntoObject h empty_object (custom_include_body data))) k)"
  by (simp add: customBody_def customObject_def map_of_object_assign distinct_slider_values
      slider_values_no_proto map_add_def map_of_slider_values)

lemma prototype_customObject:
  "prototype (customObject h c data)
     = prototype (mergeYamlIntoObject h empty_object (custom_include_body data))"
  by (simp add: customObject_def map_of_object_assign distinct_slider_values
      slider_values_no_proto)

lemma slider_values_skip:
  "\<not> contributes s \<Longrightarrow> slider_values (xs @ s # ys) = slider_values (xs @ ys)"
proof (induction ys rule: rev_induct)
  case Nil
  then show ?case by (simp add: slider_values_snoc)
next
  case (snoc y ys)
  have "slider_values ((xs @ s # ys) @ [y])
          = (if contributes y
             then AList.update (s_property y) (YNumber (s_value y)) (slider_values (xs @ s # ys))
             else slider_values (xs @ s # ys))"
    by (rule slider_values_snoc)
  moreover have "slider_values ((xs @ ys) @ [y])
          = (if contributes y
             then AList.update (s_property y) (YNumber (s_value y)) (slider_values (xs @ ys))
             else slider_values (xs @ ys))"
    by (rule slider_values_snoc)
  ultimately show ?case using snoc by simp
qed

lemma injected_last:
  assumes "contributes s" and "\<forall>t \<in> set ys. contributes t \<longrightarrow> s_property t \<noteq> s_property s"
  shows "injected (xs @ s # ys) (s_property s) = Some (YNumber (s_value s))"
proof -
  from assms(2) have "filter (\<lambda>t. contributes t \<and> s_property t = s_property s) ys = []"
    by (auto simp: filter_empty_conv)
  with assms(1) show ?thesis by (simp add: injected_def Let_def)
qed

lemma injected_none:
  "\<forall>t \<in> set ss. contributes t \<longrightarrow> s_property t \<noteq> k \<Longrightarrow> injected ss k = None"
proof -
  assume "\<forall>t \<in> set ss. contributes t \<longrightarrow> s_property t \<noteq> k"
  then have "filter (\<lambda>t. contributes t \<and> s_property t = k) ss = []"
    by (auto simp: filter_empty_conv)
  then show ?thesis by (simp add: injected_def)
qed

lemma on_ready_custom:
  "chat_completion_source data = ''custom'' \<Longrightarrow> find active (collections st) = Some c \<Longrightarrow>
   on_CHAT_COMPLETION_SETTINGS_READY h st data
     = data\<lparr>custom_include_body := yaml_stringify h (customObject h c data)\<rparr>"
  by (simp add: on_CHAT_COMPLETION_SETTINGS_READY_def)

lemma find_example [simp]:
  "find active (collections (example_settings ss)) = Some (collection_of True ''A'' ss [])"
  by (simp add: example_settings_def collection_of_def)

text \<open>Counting under a list update.\<close>

lemma length_filter_update:
  "i < length xs \<Longrightarrow>
   length (filter P (xs[i := y])) + (if P (xs ! i) then 1 else 0)
     = length (filter P xs) + (if P y then 1 else 0)"
proof -
  assume i: "i < length xs"
  have a: "xs[i := y] = take i xs @ y # drop (Suc i) xs" using i by (rule upd_conv_take_nth_drop)
  have b: "filter P xs = filter P (take i xs @ xs ! i # drop (Suc i) xs)"
    using i by (simp add: id_take_nth_drop [symmetric])
  show ?thesis unfolding a b by simp
qed

lemma sum_list_update_nat:
  fixes f :: "'a \<Rightarrow> nat"
  shows "i < length xs \<Longrightarrow>
   sum_list (map f (xs[i := y])) + f (xs ! i) = sum_list (map f xs) + f y"
proof -
  assume i: "i < length xs"
  have a: "xs[i := y] = take i xs @ y # drop (Suc i) xs" using i by (rule upd_conv_take_nth_drop)
  have b: "map f xs = map f (take i xs @ xs ! i # drop (Suc i) xs)"
    using i by (simp add: id_take_nth_drop [symmetric])
  show ?thesis unfolding a b by simp
qed

lemma at_most_one:
  "length (filter Q xs) \<le> 1 \<Longrightarrow> i < j \<Longrightarrow> j < length xs \<Longrightarrow> Q (xs ! i) \<Longrightarrow> \<not> Q (xs ! j)"
proof (induction xs arbitrary: i j)
  case Nil
  then show ?case by simp
next
  case (Cons x xs)
  from Cons.prems(2) obtain j' where j: "j = Suc j'" by (cases j) auto
  show ?case
  proof (cases i)
    case 0
    with Cons.prems have "filter Q xs = []" by simp
    then have "\<forall>y \<in> set xs. \<not> Q y" by (simp add: filter_empty_conv)
    with Cons.prems(3) j show ?thesis by simp
  next
    case (Suc i')
    from Cons.prems(1) have "length (filter Q xs) \<le> 1" by (simp split: if_splits)
    from Cons.IH [OF this, of i' j'] Cons.prems Suc j show ?thesis by simp
  qed
qed

lemma only_one:
  assumes "length (filter Q xs) \<le> 1" "i < length xs" "j < length xs" "Q (xs ! i)" "i \<noteq> j"
  shows "\<not> Q (xs ! j)"
proof (cases "i < j")
  case True
  then show ?thesis using at_most_one [OF assms(1) True assms(3,4)] by simp
next
  case False
  with assms(5) have ji: "j < i" by simp
  show ?thesis
  proof
    assume "Q (xs ! j)"
    from at_most_one [OF assms(1) ji assms(2) this] assms(4) show False by simp
  qed
qed

lemma one_by_name:
  "distinct (map f xs) \<Longrightarrow> y \<in> set (map f xs) \<Longrightarrow> length (filter (\<lambda>x. f x = y) xs) = 1"
proof (induction xs)
  case Nil
  then show ?case by simp
next
  case (Cons x xs)
  show ?case
  proof (cases "f x = y")
    case True
    from Cons.prems(1) have "f x \<notin> f ` set xs" by simp
    with True have "\<forall>z \<in> set xs. f z \<noteq> y" by blast
    then have "filter (\<lambda>x. f x = y) xs = []" by (simp add: filter_empty_conv)
    with True show ?thesis by simp
  next
    case False
    with Cons show ?thesis by auto
  qed
qed

text \<open>The invariants in terms of the flags, names and preset lists.\<close>

lemma base_invariant_flags:
  "base_invariant s
     = (map active (collections s) \<noteq> [] \<and> length (filter id (map active (collections s))) = 1)"
  by (simp add: base_invariant_def active_count_map)

lemma findIndex_active_ex:
  "base_invariant s \<Longrightarrow> \<exists>a. findIndex active (collections s) = Some a"
  using base_invariant_ex findIndex_Some_ex by blast

lemma base_invariant_running: "base_invariant s \<Longrightarrow> running s = s"
  using base_invariant_ex running_id by blast

lemma find_name: "(find (\<lambda>c. name c = nm) cs = None) = (nm \<notin> set (map name cs))"
  by (auto simp: find_None_iff)

text \<open>What each lifecycle handler leaves, case by case.\<close>

lemma createCollection_cases:
  "fst (createCollection h r s) = running s
   \<or> (\<exists>nm. r = Some nm \<and> nm \<noteq> [] \<and> nm \<notin> set (map name (collections (running s)))
        \<and> fst (createCollection h r s) = fst (renderSliderConfigs h (appended nm [] (running s))))"
  by (cases r) (auto simp: createCollection_def appended_def Let_def find_name)

lemma processImport_cases:
  "fst (processImport h f ps r s) = s
   \<or> (\<exists>nm. r = Some nm \<and> nm \<noteq> [] \<and> nm \<notin> set (map name (collections s))
        \<and> fst (processImport h f ps r s) = fst (renderSliderConfigs h (appended nm ps s)))"
  by (cases r) (auto simp: processImport_def appended_def Let_def find_name case_prod_beta)

lemma importFile_onload_cases:
  "fst (importFile_onload h fname content r s) = s
   \<or> (\<exists>nm ps. json_parse h content = Some (JArray ps) \<and> r = Some nm \<and> nm \<noteq> []
        \<and> nm \<notin> set (map name (collections s))
        \<and> fst (importFile_onload h fname content r s) = fst (renderSliderConfigs h (appended nm ps s)))"
proof (cases "json_parse h content")
  case None
  then show ?thesis by (simp add: importFile_onload_def Let_def)
next
  case (Some j)
  show ?thesis
  proof (cases j)
    case (JArray ps)
    with Some processImport_cases [of h _ ps r s] show ?thesis
      by (auto simp: importFile_onload_def Let_def)
  next
    case JNotArray
    with Some show ?thesis by (simp add: importFile_onload_def Let_def)
  qed
qed

lemma deleteCollection_cases:
  "fst (deleteCollection h cf s) = running s
   \<or> (\<exists>i. cf \<and> length (collections (running s)) \<noteq> 1
        \<and> findIndex active (collections (running s)) = Some i
        \<and> fst (deleteCollection h cf s) = fst (renderSliderConfigs h (removed i (running s))))"
  by (cases "findIndex active (collections (running s))")
     (auto simp: deleteCollection_def removed_def Let_def)

lemma presetChanged_cases:
  "fst (on_OAI_PRESET_CHANGED_AFTER h s) = s
   \<or> (\<exists>a w. findIndex active (collections s) = Some a
        \<and> findIndex (\<lambda>c. preset_settings_openai h \<in> set (presets c)) (collections s) = Some w
        \<and> w \<noteq> a
        \<and> fst (on_OAI_PRESET_CHANGED_AFTER h s)
            = fst (renderSliderConfigs h
                 (s\<lparr>collections :=
                     ((collections s)[w := (collections s ! w)\<lparr>active := True\<rparr>])
                       [a := ((collections s)[w := (collections s ! w)\<lparr>active := True\<rparr>] ! a)
                               \<lparr>active := False\<rparr>]\<rparr>)))"
  by (cases "findIndex active (collections s)";
      cases "findIndex (\<lambda>c. preset_settings_openai h \<in> set (presets c)) (collections s)")
     (auto simp: on_OAI_PRESET_CHANGED_AFTER_def Let_def)

lemma appended_flags:
  "map active (collections (appended nm ss t)) = map (\<lambda>c. False) (collections t) @ [True]"
  by (simp add: appended_def)

lemma appended_names:
  "map name (collections (appended nm ss t)) = map name (collections t) @ [nm]"
  by (simp add: appended_def comp_def)

lemma appended_presets:
  "map presets (collections (appended nm ss t)) = map presets (collections t) @ [[]]"
  by (simp add: appended_def comp_def)

lemma base_invariant_appended: "base_invariant (appended nm ss t)"
  by (simp add: base_invariant_flags appended_flags)

lemma activate_first_map:
  "(\<And>c. f (c\<lparr>active := True\<rparr>) = f c) \<Longrightarrow>
   map f (case xs of [] \<Rightarrow> [] | c # r \<Rightarrow> c\<lparr>active := True\<rparr> # r) = map f xs"
  by (cases xs) auto

lemma removed_names:
  "map name (collections (removed i t))
     = take i (map name (collections t)) @ drop (Suc i) (map name (collections t))"
  by (simp add: removed_def activate_first_map take_map drop_map)

lemma removed_presets:
  "map presets (collections (removed i t))
     = take i (map presets (collections t)) @ drop (Suc i) (map presets (collections t))"
  by (simp add: removed_def activate_first_map take_map drop_map)

lemma distinct_splice: "distinct ns \<Longrightarrow> distinct (take i ns @ drop (Suc i) ns)"
  using set_take_disj_set_drop_if_distinct [of ns i "Suc i"] by simp

lemma names_distinct_removed: "names_distinct t \<Longrightarrow> names_distinct (removed i t)"
  unfolding names_distinct_def removed_names by (rule distinct_splice)

lemma base_invariant_removed:
  assumes "base_invariant t" "findIndex active (collections t) = Some i"
    "length (collections t) \<noteq> 1"
  shows "base_invariant (removed i t)"
proof -
  let ?cs = "collections t"
  from findIndex_Some [OF assms(2)] have i: "i < length ?cs" and ai: "active (?cs ! i)" by auto
  have split: "?cs = take i ?cs @ ?cs ! i # drop (Suc i) ?cs"
    using i by (rule id_take_nth_drop)
  have "length (filter active ?cs) = 1" using assms(1) by (simp add: base_invariant_def active_count_def)
  then have "length (filter active (take i ?cs @ ?cs ! i # drop (Suc i) ?cs)) = 1"
    using split by simp
  with ai have none: "filter active (take i ?cs @ drop (Suc i) ?cs) = []" by simp
  from i assms(3) have "length (take i ?cs @ drop (Suc i) ?cs) \<noteq> 0" by simp
  then obtain c r where cr: "take i ?cs @ drop (Suc i) ?cs = c # r"
    by (cases "take i ?cs @ drop (Suc i) ?cs") auto
  with none have "filter active r = []" by (simp split: if_splits)
  with cr show ?thesis by (simp add: base_invariant_def active_count_def removed_def)
qed

lemma base_invariant_render [simp]:
  "base_invariant (fst (renderSliderConfigs h s)) = base_invariant s"
  by (rule base_invariant_cong) simp

lemma names_distinct_render [simp]:
  "names_distinct (fst (renderSliderConfigs h s)) = names_distinct s"
  by (rule names_distinct_cong) simp

lemma base_invariant_selected:
  assumes "names_distinct s" "selectedName \<in> set (map name (collections s))"
  shows "base_invariant (s\<lparr>collections :=
             map (\<lambda>c. c\<lparr>active := (name c = selectedName)\<rparr>) (collections s)\<rparr>)"
proof -
  have "length (filter (\<lambda>c. name c = selectedName) (collections s)) = 1"
    using one_by_name [of name "collections s" selectedName] assms by (simp add: names_distinct_def)
  moreover have "collections s \<noteq> []" using assms(2) by auto
  ultimately show ?thesis
    by (simp add: base_invariant_def active_count_def filter_map comp_def)
qed

lemma base_invariant_switched:
  assumes "base_invariant s" "findIndex active (collections s) = Some a" "w < length (collections s)"
    "w \<noteq> a"
  shows "base_invariant (s\<lparr>collections :=
            ((collections s)[w := (collections s ! w)\<lparr>active := True\<rparr>])
              [a := ((collections s)[w := (collections s ! w)\<lparr>active := True\<rparr>] ! a)
                      \<lparr>active := False\<rparr>]\<rparr>)"
proof -
  let ?cs = "collections s"
  let ?cs1 = "?cs[w := (?cs ! w)\<lparr>active := True\<rparr>]"
  from findIndex_Some [OF assms(2)] have a: "a < length ?cs" and aa: "active (?cs ! a)" by auto
  have one: "length (filter active ?cs) = 1" and ne: "?cs \<noteq> []"
    using assms(1) by (simp_all add: base_invariant_def active_count_def)
  have nw: "\<not> active (?cs ! w)"
    using only_one [of active ?cs a w] one a assms(3,4) aa by simp
  have c1: "length (filter active ?cs1) = 2"
    using length_filter_update [OF assms(3), of active "(?cs ! w)\<lparr>active := True\<rparr>"] nw one by simp
  have a1: "a < length ?cs1" using a by simp
  have "active (?cs1 ! a)" using assms(4) aa by simp
  then have "length (filter active (?cs1[a := (?cs1 ! a)\<lparr>active := False\<rparr>])) = 1"
    using length_filter_update [OF a1, of active "(?cs1 ! a)\<lparr>active := False\<rparr>"] c1 by simp
  with ne show ?thesis by (simp add: base_invariant_def active_count_def)
qed

lemma map_update_twice:
  assumes "f u = f (xs ! w)" "f v = f (xs ! a)"
  shows "map f (xs[w := u, a := v]) = map f xs"
proof -
  have 1: "map f (xs[w := u]) = map f xs" using assms(1) by (rule map_update_same)
  have "f (xs[w := u] ! a) = f (xs ! a)"
    using assms(1) by (cases "a = w"; cases "w < length xs") (simp_all add: list_update_beyond)
  with assms(2) have "map f (xs[w := u, a := v]) = map f (xs[w := u])"
    by (simp add: map_update_same)
  with 1 show ?thesis by simp
qed

text \<open>Counting preset names.\<close>

lemma distinct_count_le: "distinct xs = (\<forall>q. count_list xs q \<le> 1)"
proof (induction xs)
  case Nil
  then show ?case by simp
next
  case (Cons x xs)
  show ?case
  proof
    assume d: "distinct (x # xs)"
    then have "count_list xs x = 0" by (simp add: count_list_0_iff)
    with d Cons show "\<forall>q. count_list (x # xs) q \<le> 1" by auto
  next
    assume c: "\<forall>q. count_list (x # xs) q \<le> 1"
    then have "count_list (x # xs) x \<le> 1" by blast
    then have "x \<notin> set xs" by (simp add: count_list_0_iff [symmetric])
    moreover have "\<forall>q. count_list xs q \<le> 1"
    proof
      fix q
      from c have "count_list (x # xs) q \<le> 1" by blast
      then show "count_list xs q \<le> 1" by (simp split: if_splits)
    qed
    ultimately show "distinct (x # xs)" using Cons by simp
  qed
qed

lemma count_list_concat:
  "count_list (concat pss) q = sum_list (map (\<lambda>ps. count_list ps q) pss)"
  by (induction pss) simp_all

lemma bound_count_concat:
  "bound_count q s = count_list (concat (map presets (collections s))) q"
  by (simp add: bound_count_def count_list_concat comp_def)

lemma presets_once_count: "presets_once s = (\<forall>q. bound_count q s \<le> 1)"
  by (simp add: presets_once_def distinct_count_le bound_count_concat)

lemma count_list_remove1:
  "count_list (remove1 p xs) q = (if q = p then count_list xs q - 1 else count_list xs q)"
  by (induction xs) auto

lemma count_list_snoc:
  "count_list (xs @ [p]) q = count_list xs q + (if q = p then 1 else 0)"
  by (induction xs) auto

lemma bound_count_update:
  assumes "i < length (collections s)"
  shows "bound_count q (s\<lparr>collections := (collections s)[i := c]\<rparr>)
           + count_list (presets (collections s ! i)) q
         = bound_count q s + count_list (presets c) q"
  using sum_list_update_nat [OF assms, of "\<lambda>c. count_list (presets c) q" c]
  by (simp add: bound_count_def)

lemma bound_count_none:
  "findIndex (\<lambda>c. q \<in> set (presets c)) (collections s) = None \<Longrightarrow> bound_count q s = 0"
  by (auto simp: findIndex_None bound_count_def list_ex_iff count_list_0_iff)

lemma bound_count_cong:
  "map presets (collections s) = map presets (collections s') \<Longrightarrow> bound_count q s = bound_count q s'"
  by (simp add: bound_count_concat)

lemma bound_count_render [simp]:
  "bound_count q (fst (renderSliderConfigs h s)) = bound_count q s"
  by (rule bound_count_cong) simp

lemma bound_count_ge:
  "i < length (collections s) \<Longrightarrow> count_list (presets (collections s ! i)) q \<le> bound_count q s"
proof -
  assume i: "i < length (collections s)"
  have "collections s = take i (collections s) @ collections s ! i # drop (Suc i) (collections s)"
    using i by (rule id_take_nth_drop)
  then have "bound_count q s
      = sum_list (map (\<lambda>c. count_list (presets c) q)
           (take i (collections s) @ collections s ! i # drop (Suc i) (collections s)))"
    by (simp add: bound_count_def)
  then show ?thesis by simp
qed

text \<open>What \<open>bindToPreset\<close> leaves, case by case, with \<open>t\<close> the settings it fetched.\<close>

lemma bindToPreset_cases:
  assumes "t = running s" "p = preset_settings_openai h" "cs = collections t"
  shows "fst (bindToPreset h s) = t
   \<or> (\<exists>a. p \<noteq> [] \<and> findIndex active cs = Some a
        \<and> findIndex (\<lambda>c. p \<in> set (presets c)) cs = None
        \<and> fst (bindToPreset h s)
            = fst (renderSliderConfigs h
                (t\<lparr>collections := cs[a := (cs ! a)\<lparr>presets := presets (cs ! a) @ [p]\<rparr>]\<rparr>)))
   \<or> (\<exists>a. p \<noteq> [] \<and> findIndex active cs = Some a
        \<and> findIndex (\<lambda>c. p \<in> set (presets c)) cs = Some a
        \<and> fst (bindToPreset h s)
            = fst (renderSliderConfigs h
                (t\<lparr>collections := cs[a := (cs ! a)\<lparr>presets := remove1 p (presets (cs ! a))\<rparr>]\<rparr>)))
   \<or> (\<exists>a w. p \<noteq> [] \<and> findIndex active cs = Some a
        \<and> findIndex (\<lambda>c. p \<in> set (presets c)) cs = Some w \<and> w \<noteq> a
        \<and> fst (bindToPreset h s)
            = fst (renderSliderConfigs h
                (t\<lparr>collections :=
                    (cs[w := (cs ! w)\<lparr>presets := remove1 p (presets (cs ! w))\<rparr>])
                      [a := (cs ! a)\<lparr>presets := presets (cs ! a) @ [p]\<rparr>]\<rparr>)))"
proof (cases "p = []")
  case True
  with assms show ?thesis by (simp add: bindToPreset_def Let_def)
next
  case False
  show ?thesis
  proof (cases "findIndex active cs")
    case None
    with assms False show ?thesis by (simp add: bindToPreset_def Let_def)
  next
    case (Some a)
    show ?thesis
    proof (cases "findIndex (\<lambda>c. p \<in> set (presets c)) cs")
      case None
      with assms False Some show ?thesis
        by (simp add: bindToPreset_def Let_def case_prod_beta)
    next
      case w: (Some w)
      show ?thesis
      proof (cases "w = a")
        case True
        with assms False Some w show ?thesis
          by (simp add: bindToPreset_def Let_def case_prod_beta)
      next
        case ne: False
        with assms False Some w show ?thesis
          by (simp add: bindToPreset_def Let_def case_prod_beta)
      qed
    qed
  qed
qed

lemma bound_count_running [simp]: "bound_count q (running s) = bound_count q s"
proof (cases "collections s")
  case Nil
  then show ?thesis
    by (simp add: running_def getSettings_def defaultSettings_def bound_count_def)
next
  case (Cons c cs)
  then show ?thesis
    by (simp add: running_def getSettings_def bound_count_def Let_def)
qed

lemma presets_once_running [simp]: "presets_once (running s) = presets_once s"
  by (simp add: presets_once_count)

lemma bound_count_bind:
  "bound_count q s \<le> 1 \<Longrightarrow> bound_count q (fst (bindToPreset h s)) \<le> 1"
proof -
  assume le: "bound_count q s \<le> 1"
  define t where "t = running s"
  define p where "p = preset_settings_openai h"
  define cs where "cs = collections t"
  have lt: "bound_count q t \<le> 1" using le by (simp add: t_def)
  note cases = bindToPreset_cases [OF t_def p_def cs_def]
  {
    fix a
    assume a: "findIndex active cs = Some a"
      and none: "findIndex (\<lambda>c. p \<in> set (presets c)) cs = None"
    from findIndex_Some [OF a] have al: "a < length (collections t)" by (simp add: cs_def)
    have z: "bound_count p t = 0" using none by (simp add: bound_count_none cs_def)
    have "bound_count q (t\<lparr>collections := cs[a := (cs ! a)\<lparr>presets := presets (cs ! a) @ [p]\<rparr>]\<rparr>) \<le> 1"
      using bound_count_update [OF al, of q "(cs ! a)\<lparr>presets := presets (cs ! a) @ [p]\<rparr>"] lt z
      by (auto simp: cs_def count_list_snoc split: if_splits)
  }
  note fresh = this
  {
    fix a
    assume a: "findIndex active cs = Some a"
    from findIndex_Some [OF a] have al: "a < length (collections t)" by (simp add: cs_def)
    have "bound_count q (t\<lparr>collections := cs[a := (cs ! a)\<lparr>presets := remove1 p (presets (cs ! a))\<rparr>]\<rparr>) \<le> 1"
      using bound_count_update [OF al, of q "(cs ! a)\<lparr>presets := remove1 p (presets (cs ! a))\<rparr>"] lt
      by (auto simp: cs_def count_list_remove1 split: if_splits)
  }
  note toggle = this
  {
    fix a w
    assume a: "findIndex active cs = Some a"
      and w: "findIndex (\<lambda>c. p \<in> set (presets c)) cs = Some w" and ne: "w \<noteq> a"
    from findIndex_Some [OF a] have al: "a < length (collections t)" by (simp add: cs_def)
    from findIndex_Some [OF w] have wl: "w < length (collections t)"
      and pw: "p \<in> set (presets (cs ! w))" by (simp_all add: cs_def)
    from pw have cw: "1 \<le> count_list (presets (cs ! w)) p"
      using count_list_0_iff [of "presets (cs ! w)" p] by simp
    define t1 where "t1 = t\<lparr>collections := cs[w := (cs ! w)\<lparr>presets := remove1 p (presets (cs ! w))\<rparr>]\<rparr>"
    have al1: "a < length (collections t1)" using al by (simp add: t1_def cs_def)
    have at: "collections t1 ! a = cs ! a" using ne al by (simp add: t1_def cs_def)
    have b1: "bound_count q t1 + count_list (presets (cs ! w)) q
                = bound_count q t + count_list (remove1 p (presets (cs ! w))) q"
      using bound_count_update [OF wl, of q "(cs ! w)\<lparr>presets := remove1 p (presets (cs ! w))\<rparr>"]
      by (simp add: t1_def cs_def)
    have b2: "bound_count q (t1\<lparr>collections := (collections t1)[a := (cs ! a)\<lparr>presets := presets (cs ! a) @ [p]\<rparr>]\<rparr>)
                + count_list (presets (cs ! a)) q
                = bound_count q t1 + count_list (presets (cs ! a) @ [p]) q"
      using bound_count_update [OF al1, of q "(cs ! a)\<lparr>presets := presets (cs ! a) @ [p]\<rparr>"] at
      by simp
    have "bound_count q (t\<lparr>collections :=
                    (cs[w := (cs ! w)\<lparr>presets := remove1 p (presets (cs ! w))\<rparr>])
                      [a := (cs ! a)\<lparr>presets := presets (cs ! a) @ [p]\<rparr>]\<rparr>) = bound_count q t"
      using b1 b2 cw by (auto simp: t1_def count_list_remove1 count_list_snoc split: if_splits)
    with lt have "bound_count q (t\<lparr>collections :=
                    (cs[w := (cs ! w)\<lparr>presets := remove1 p (presets (cs ! w))\<rparr>])
                      [a := (cs ! a)\<lparr>presets := presets (cs ! a) @ [p]\<rparr>]\<rparr>) \<le> 1" by simp
  }
  note move = this
  from cases lt fresh toggle move show ?thesis by auto
qed

lemma presets_once_bind: "presets_once s \<Longrightarrow> presets_once (fst (bindToPreset h s))"
  unfolding presets_once_count using bound_count_bind by blast


lemma distinct_concat_splice:
  "distinct (concat pss) \<Longrightarrow> distinct (concat (take i pss @ drop (Suc i) pss))"
proof (cases "i < length pss")
  case True
  assume d: "distinct (concat pss)"
  have "pss = take i pss @ pss ! i # drop (Suc i) pss" using True by (rule id_take_nth_drop)
  then have "concat pss = concat (take i pss) @ pss ! i @ concat (drop (Suc i) pss)"
    by (metis concat.simps(2) concat_append)
  with d show ?thesis by auto
next
  case False
  assume "distinct (concat pss)"
  with False show ?thesis by simp
qed

lemma presets_once_removed: "presets_once t \<Longrightarrow> presets_once (removed i t)"
  unfolding presets_once_def removed_presets by (rule distinct_concat_splice)

lemma presets_once_appended [simp]: "presets_once (appended nm ss t) = presets_once t"
  by (simp add: presets_once_def appended_presets)

lemma presets_once_render [simp]:
  "presets_once (fst (renderSliderConfigs h s)) = presets_once s"
  by (rule presets_once_cong) simp

lemma presets_once_renderC [simp]:
  "presets_once (fst (renderCompletionSliders h s)) = presets_once s"
  by (rule presets_once_cong) simp

lemma presets_once_with_sliders [simp]: "presets_once (with_sliders f s) = presets_once s"
  by (rule presets_once_cong) simp

lemma presets_once_getSettings:
  "presets_once (getSettings Absent)" "presets_once (getSettings NoCollectionsKey)"
  by (simp_all add: presets_once_def getSettings_def defaultSettings_def)

lemma presets_once_init_stored:
  "presets_once s \<Longrightarrow> presets_once (fst (init h (Stored (collections s))))"
  using presets_once_running [of s] by (simp add: init_def case_prod_beta running_def)

lemma presets_once_create: "presets_once s \<Longrightarrow> presets_once (fst (createCollection h r s))"
  using createCollection_cases [of h r s] by auto

lemma presets_once_delete: "presets_once s \<Longrightarrow> presets_once (fst (deleteCollection h cf s))"
  using deleteCollection_cases [of h cf s] by (auto simp: presets_once_removed)

lemma presets_once_import:
  "presets_once s \<Longrightarrow> presets_once (fst (importFile_onload h fname content r s))"
  using importFile_onload_cases [of h fname content r s] by auto

lemma presets_once_change:
  "presets_once s \<Longrightarrow> presets_once (fst (collections_change h nm s))"
  by (simp add: collections_change_def presets_once_def comp_def)

lemma presets_once_preset_changed:
  "presets_once s \<Longrightarrow> presets_once (fst (on_OAI_PRESET_CHANGED_AFTER h s))"
  using presetChanged_cases [of h s] by (auto simp: presets_once_def map_update_twice)

lemma presets_once_createSlider:
  "presets_once s \<Longrightarrow> presets_once (fst (createSlider h s))"
proof -
  assume p: "presets_once s"
  have "fst (createSlider h s) = running s
        \<or> fst (createSlider h s) = fst (renderSliderConfigs h (with_sliders (Cons newSlider) (running s)))"
    by (cases "findIndex active (collections (running s))")
       (simp_all add: createSlider_def with_sliders_def Let_def)
  with p show ?thesis by auto
qed

lemma presets_once_rowInput:
  "presets_once s \<Longrightarrow> presets_once (fst (rowInput_input h i fld s))"
  by (simp add: rowInput_input_def case_prod_beta)

lemma presets_once_deleteButton:
  "presets_once s \<Longrightarrow> presets_once (fst (deleteButton_click h i cf s))"
  by (simp add: deleteButton_click_def case_prod_beta split: option.splits)

lemma presets_once_upButton:
  "presets_once s \<Longrightarrow> presets_once (fst (upButton_click h i s))"
  by (simp add: upButton_click_def case_prod_beta split: option.splits)

lemma presets_once_downButton:
  "presets_once s \<Longrightarrow> presets_once (fst (downButton_click h i s))"
  by (simp add: downButton_click_def case_prod_beta Let_def split: option.splits)

lemma presets_once_sliderInput:
  "presets_once s \<Longrightarrow> presets_once (fst (sliderInput_input h i v s))"
  by (simp add: sliderInput_input_def)

lemma reachable_presets_once: "reachable s \<Longrightarrow> presets_once s"
proof (induction rule: reachable.induct)
  case (fresh h)
  then show ?case by (simp add: init_def case_prod_beta presets_once_getSettings)
next
  case (upgraded h)
  then show ?case by (simp add: init_def case_prod_beta presets_once_getSettings)
next
  case (reloaded s h)
  then show ?case by (simp add: presets_once_init_stored)
next
  case (created s h response)
  then show ?case by (simp add: presets_once_create)
next
  case (deleted s h confirm)
  then show ?case by (simp add: presets_once_delete)
next
  case (selected s selectedName h)
  then show ?case by (simp add: presets_once_change)
next
  case (imported s h fname content response)
  then show ?case by (simp add: presets_once_import)
next
  case (bound s h)
  then show ?case by (simp add: presets_once_bind)
next
  case (preset_changed s h)
  then show ?case by (simp add: presets_once_preset_changed)
next
  case (slider_created s h)
  then show ?case by (simp add: presets_once_createSlider)
next
  case (row_input s h i fld)
  then show ?case by (simp add: presets_once_rowInput)
next
  case (slider_deleted s h i confirm)
  then show ?case by (simp add: presets_once_deleteButton)
next
  case (moved_up s h i)
  then show ?case by (simp add: presets_once_upButton)
next
  case (moved_down s h i)
  then show ?case by (simp add: presets_once_downButton)
next
  case (slider_input s h i v)
  then show ?case by (simp add: presets_once_sliderInput)
qed



lemma holders_none: "bound_count q s = 0 \<Longrightarrow> holders q s = []"
  by (auto simp: bound_count_def holders_def filter_empty_conv count_list_0_iff)

lemma findIndex_running: "findIndex active (collections s) = Some a \<Longrightarrow> running s = s"
proof -
  assume "findIndex active (collections s) = Some a"
  then have "list_ex active (collections s)" using findIndex_None [of active "collections s"] by auto
  then show ?thesis by (rule running_id)
qed

lemma nth_map_presets:
  "map presets cs' = pss \<Longrightarrow> j < length pss \<Longrightarrow> presets (cs' ! j) = pss ! j"
  by (metis length_map nth_map)

lemma example_preset [simp]: "preset_settings_openai example_host = ''P1''"
  by (simp add: example_host_def)

section \<open>The accessor repairs an empty list and a list with no active member\<close>

lemma getSettings_nonempty: "collections (getSettings g) \<noteq> []"
  by (cases g) (auto simp: getSettings_def defaultSettings_def Let_def)

lemma getSettings_some_active: "list_ex active (collections (getSettings g))"
proof (cases g)
  case Absent
  then show ?thesis by (simp add: getSettings_def defaultSettings_def)
next
  case NoCollectionsKey
  then show ?thesis by (simp add: getSettings_def defaultSettings_def)
next
  case (Stored cs)
  show ?thesis
  proof (cases cs)
    case Nil
    with Stored show ?thesis by (simp add: getSettings_def defaultSettings_def)
  next
    case (Cons c cs')
    with Stored show ?thesis by (simp add: getSettings_def Let_def)
  qed
qed

lemma getSettings_keeps_active:
  "list_ex active cs \<Longrightarrow> getSettings (Stored cs) = \<lparr>collections = cs\<rparr>"
  by (cases cs) (auto simp: getSettings_def Let_def)

lemma filter_none: "\<not> list_ex P cs \<Longrightarrow> filter P cs = []"
  by (induction cs) auto

lemma getSettings_activates_first:
  "cs \<noteq> [] \<Longrightarrow> \<not> list_ex active cs \<Longrightarrow>
   collections (getSettings (Stored cs)) = (hd cs)\<lparr>active := True\<rparr> # tl cs"
  by (cases cs) (auto simp: getSettings_def Let_def)

lemma active_count_le_one:
  "length (filter active cs) \<le> 1 \<Longrightarrow> active_count (getSettings (Stored cs)) = 1"
proof (cases "list_ex active cs")
  case True
  assume le: "length (filter active cs) \<le> 1"
  from True have "filter active cs \<noteq> []" by (induction cs) auto
  then have "length (filter active cs) \<noteq> 0" by simp
  with le have "length (filter active cs) = 1" by linarith
  with True show ?thesis by (simp add: getSettings_keeps_active active_count_def)
next
  case False
  show ?thesis
  proof (cases cs)
    case Nil
    then show ?thesis by (simp add: getSettings_def defaultSettings_def active_count_def)
  next
    case (Cons c cs')
    with False have "filter active cs' = []" by (simp add: filter_none)
    with Cons False show ?thesis
      by (simp add: getSettings_activates_first active_count_def)
  qed
qed

text \<open>
  Claim C3, as the code has it. For every stored value, \<open>getSettings\<close> returns a collection
  list that is not empty and has at least one active member. Without the namespace the result
  is the single active collection \<open>Default\<close> with no sliders and no presets. A list with
  at most one active member comes back with exactly one; a non-empty list with none active
  comes back with its first collection activated and no other; a list with an active
  member, also one with several, comes back as it is.
\<close>

theorem getSettings_repairs:
  "collections (getSettings g) \<noteq> []
   \<and> list_ex active (collections (getSettings g))
   \<and> getSettings Absent =
       \<lparr>collections = [\<lparr>active = True, name = ''Default'', sliders = [], presets = []\<rparr>]\<rparr>
   \<and> (length (filter active cs) \<le> 1 \<longrightarrow> base_invariant (getSettings (Stored cs)))
   \<and> (cs \<noteq> [] \<and> \<not> list_ex active cs \<longrightarrow>
        collections (getSettings (Stored cs)) = (hd cs)\<lparr>active := True\<rparr> # tl cs
        \<and> filter active (collections (getSettings (Stored cs))) = [(hd cs)\<lparr>active := True\<rparr>])
   \<and> (list_ex active cs \<longrightarrow> getSettings (Stored cs) = \<lparr>collections = cs\<rparr>)"
proof -
  have a: "getSettings Absent =
       \<lparr>collections = [\<lparr>active = True, name = ''Default'', sliders = [], presets = []\<rparr>]\<rparr>"
    by (simp add: getSettings_def defaultSettings_def)
  have b: "length (filter active cs) \<le> 1 \<longrightarrow> base_invariant (getSettings (Stored cs))"
    by (simp add: base_invariant_def getSettings_nonempty active_count_le_one)
  have c: "cs \<noteq> [] \<and> \<not> list_ex active cs \<longrightarrow>
        collections (getSettings (Stored cs)) = (hd cs)\<lparr>active := True\<rparr> # tl cs
        \<and> filter active (collections (getSettings (Stored cs))) = [(hd cs)\<lparr>active := True\<rparr>]"
  proof (cases cs)
    case Nil
    then show ?thesis by simp
  next
    case (Cons x xs)
    show ?thesis
    proof (intro impI, elim conjE)
      assume ne: "cs \<noteq> []" and na: "\<not> list_ex active cs"
      from na Cons have "filter active xs = []" by (simp add: filter_none)
      with Cons ne na show "collections (getSettings (Stored cs)) = (hd cs)\<lparr>active := True\<rparr> # tl cs
        \<and> filter active (collections (getSettings (Stored cs))) = [(hd cs)\<lparr>active := True\<rparr>]"
        by (simp add: getSettings_activates_first)
    qed
  qed
  from a b c show ?thesis
    using getSettings_nonempty getSettings_some_active getSettings_keeps_active by blast
qed

text \<open>The statement at the empty list, at two inactive collections and at a valid list.\<close>

theorem getSettings_repairs_witness:
  "base_invariant (getSettings (Stored []))
   \<and> collections (getSettings (Stored [collection_of False ''A'' [] [], collection_of False ''B'' [] []]))
       = [collection_of True ''A'' [] [], collection_of False ''B'' [] []]
   \<and> getSettings (Stored [collection_of False ''A'' [] [], collection_of True ''B'' [] []])
       = \<lparr>collections = [collection_of False ''A'' [] [], collection_of True ''B'' [] []]\<rparr>"
proof -
  have 1: "base_invariant (getSettings (Stored []))"
    using getSettings_repairs [of Absent "[]"] by simp
  have 2: "collections (getSettings (Stored [collection_of False ''A'' [] [], collection_of False ''B'' [] []]))
       = [collection_of True ''A'' [] [], collection_of False ''B'' [] []]"
    using getSettings_repairs [of Absent "[collection_of False ''A'' [] [], collection_of False ''B'' [] []]"]
    by (simp add: collection_of_def)
  have 3: "getSettings (Stored [collection_of False ''A'' [] [], collection_of True ''B'' [] []])
       = \<lparr>collections = [collection_of False ''A'' [] [], collection_of True ''B'' [] []]\<rparr>"
    using getSettings_repairs [of Absent "[collection_of False ''A'' [] [], collection_of True ''B'' [] []]"]
    by (simp add: collection_of_def)
  from 1 2 3 show ?thesis by simp
qed

text \<open>
  Claim C3 as the specification words it fails: two collections marked active are both
  still active after \<open>getSettings\<close>.
\<close>

theorem getSettings_keeps_two_active:
  "active_count (getSettings (Stored [collection_of True ''A'' [] [], collection_of True ''B'' [] []])) = 2
   \<and> \<not> base_invariant (getSettings (Stored [collection_of True ''A'' [] [], collection_of True ''B'' [] []]))"
  by (simp add: getSettings_def active_count_def base_invariant_def collection_of_def Let_def)

section \<open>Import of a malformed file\<close>

text \<open>
  Claim C8. When \<open>JSON.parse\<close> throws on the content of the import file, or returns a value
  that is not an array, \<open>reader.onload\<close> shows one error toast and nothing else: the
  settings are returned as they were, nothing is saved and nothing is rendered.
\<close>

theorem import_rejects_bad_file:
  "(json_parse h content = None \<longrightarrow>
      importFile_onload h fname content response settings
        = (settings, [ToastError FailedToParseJson]))
   \<and> (json_parse h content = Some JNotArray \<longrightarrow>
      importFile_onload h fname content response settings
        = (settings, [ToastError InvalidJsonFormat]))"
  by (simp add: importFile_onload_def Let_def)

text \<open>A truncated object and a complete object, imported into the default settings.\<close>

theorem import_rejects_bad_file_witness:
  "json_parse example_host ''{\"a\":'' = None
   \<and> importFile_onload example_host ''sliders.json'' ''{\"a\":'' (Some ''New'') (getSettings Absent)
        = (getSettings Absent, [ToastError FailedToParseJson])
   \<and> json_parse example_host ''{\"a\":1}'' = Some JNotArray
   \<and> importFile_onload example_host ''sliders.json'' ''{\"a\":1}'' (Some ''New'') (getSettings Absent)
        = (getSettings Absent, [ToastError InvalidJsonFormat])"
proof -
  have 1: "json_parse example_host ''{\"a\":'' = None"
    by (simp add: example_host_def example_json_parse_def)
  have 2: "json_parse example_host ''{\"a\":1}'' = Some JNotArray"
    by (simp add: example_host_def example_json_parse_def)
  from 1 2 show ?thesis
    using import_rejects_bad_file [of example_host "''{\"a\":''" "''sliders.json''" "Some ''New''" "getSettings Absent"]
      import_rejects_bad_file [of example_host "''{\"a\":1}''" "''sliders.json''" "Some ''New''" "getSettings Absent"]
    by simp
qed

section \<open>The reorder controls of a config row\<close>

text \<open>
  Claim C9. With \<open>ss\<close> the sliders of the active collection: the up control of the row
  with index 0 and the down control of the last row change nothing (no save, no render).
  The up control of row \<open>i > 0\<close> exchanges the entries at \<open>i - 1\<close> and \<open>i\<close>, the down
  control of a row \<open>i\<close> before the last exchanges those at \<open>i\<close> and \<open>i + 1\<close>; every other
  entry keeps its position and every other collection is untouched. The render that
  follows passes each entry through \<open>post\<close>, which can write the value of an entry (the
  clamp of the live panel) and nothing else.
\<close>

theorem reorder_controls:
  assumes "findIndex active (collections s) = Some a"
    and "ss = sliders (collections s ! a)"
    and "post = (if has_container h then rendered h else id)"
  shows "upButton_click h 0 s = (s, [])
   \<and> (length ss \<le> Suc i \<longrightarrow> downButton_click h i s = (s, []))
   \<and> (0 < i \<and> i < length ss \<longrightarrow>
        collections (fst (upButton_click h i s))
          = (collections s)[a := (collections s ! a)
               \<lparr>sliders := map post ((ss[i - 1 := ss ! i])[i := ss ! (i - 1)])\<rparr>]
        \<and> (\<forall>j < length ss.
              sliders (collections (fst (upButton_click h i s)) ! a) ! j
                = post (ss ! (if j = i - 1 then i else if j = i then i - 1 else j))))
   \<and> (Suc i < length ss \<longrightarrow>
        collections (fst (downButton_click h i s))
          = (collections s)[a := (collections s ! a)
               \<lparr>sliders := map post ((ss[i + 1 := ss ! i])[i := ss ! (i + 1)])\<rparr>]
        \<and> (\<forall>j < length ss.
              sliders (collections (fst (downButton_click h i s)) ! a) ! j
                = post (ss ! (if j = i then i + 1 else if j = i + 1 then i else j))))
   \<and> (\<forall>x. post x = x\<lparr>s_value := s_value (post x)\<rparr>)"
proof -
  from assms(1) have a: "a < length (collections s)" using findIndex_Some by blast
  have up0: "upButton_click h 0 s = (s, [])" by (simp add: upButton_click_def)
  have down_last: "length ss \<le> Suc i \<longrightarrow> downButton_click h i s = (s, [])"
    using assms(1,2) by (auto simp: downButton_click_def Let_def)
  have up_eq: "collections (fst (upButton_click h i s))
          = (collections s)[a := (collections s ! a)
               \<lparr>sliders := map post ((ss[i - 1 := ss ! i])[i := ss ! (i - 1)])\<rparr>]"
    if "0 < i" "i < length ss"
    using that assms fst_upButton_click [of i s a h]
    by (simp add: with_sliders_collections)
  have up_pos: "sliders (collections (fst (upButton_click h i s)) ! a) ! j
                = post (ss ! (if j = i - 1 then i else if j = i then i - 1 else j))"
    if "0 < i" "i < length ss" "j < length ss" for j
    using that a up_eq by (auto simp: nth_list_update)
  have down_eq: "collections (fst (downButton_click h i s))
          = (collections s)[a := (collections s ! a)
               \<lparr>sliders := map post ((ss[i + 1 := ss ! i])[i := ss ! (i + 1)])\<rparr>]"
    if "Suc i < length ss"
    using that assms fst_downButton_click [of s a i h]
    by (simp add: with_sliders_collections)
  have down_pos: "sliders (collections (fst (downButton_click h i s)) ! a) ! j
                = post (ss ! (if j = i then i + 1 else if j = i + 1 then i else j))"
    if "Suc i < length ss" "j < length ss" for j
    using that a down_eq by (auto simp: nth_list_update)
  have only: "\<forall>x. post x = x\<lparr>s_value := s_value (post x)\<rparr>"
    using rendered_value_only [of h] by (simp add: assms(3))
  from up0 down_last up_eq up_pos down_eq down_pos only show ?thesis by blast
qed

text \<open>Three sliders with the values 0, 0.5 and 1: row 1 moved up, row 1 moved down.\<close>

theorem reorder_controls_witness:
  "findIndex active (collections (example_settings
       [unit_slider (Num 0), unit_slider (Num 0.5), unit_slider (Num 1)])) = Some 0
   \<and> upButton_click example_host 0
        (example_settings [unit_slider (Num 0), unit_slider (Num 0.5), unit_slider (Num 1)])
      = (example_settings [unit_slider (Num 0), unit_slider (Num 0.5), unit_slider (Num 1)], [])
   \<and> downButton_click example_host 2
        (example_settings [unit_slider (Num 0), unit_slider (Num 0.5), unit_slider (Num 1)])
      = (example_settings [unit_slider (Num 0), unit_slider (Num 0.5), unit_slider (Num 1)], [])
   \<and> fst (upButton_click example_host 1
        (example_settings [unit_slider (Num 0), unit_slider (Num 0.5), unit_slider (Num 1)]))
      = example_settings [unit_slider (Num 0.5), unit_slider (Num 0), unit_slider (Num 1)]
   \<and> fst (downButton_click example_host 1
        (example_settings [unit_slider (Num 0), unit_slider (Num 0.5), unit_slider (Num 1)]))
      = example_settings [unit_slider (Num 0), unit_slider (Num 1), unit_slider (Num 0.5)]"
proof -
  let ?ss = "[unit_slider (Num 0), unit_slider (Num 0.5), unit_slider (Num 1)]"
  let ?st = "example_settings ?ss"
  have f: "findIndex active (collections ?st) = Some 0"
    by (simp add: example_settings_def collection_of_def)
  have s: "?ss = sliders (collections ?st ! 0)"
    by (simp add: example_settings_def collection_of_def)
  have p: "rendered example_host = (if has_container example_host then rendered example_host else id)"
    by (simp add: example_host_def)
  note r1 = reorder_controls [OF f s p, of 1]
  note r2 = reorder_controls [OF f s p, of 2]
  have eq: "\<And>x y :: ExtensionSettings. collections x = collections y \<Longrightarrow> x = y" by simp
  have up: "fst (upButton_click example_host 1 ?st)
      = example_settings [unit_slider (Num 0.5), unit_slider (Num 0), unit_slider (Num 1)]"
    by (rule eq) (use r1 in \<open>simp add: example_settings_def collection_of_def\<close>)
  have down: "fst (downButton_click example_host 1 ?st)
      = example_settings [unit_slider (Num 0), unit_slider (Num 1), unit_slider (Num 0.5)]"
    by (rule eq) (use r1 in \<open>simp add: example_settings_def collection_of_def\<close>)
  from f r1 r2 up down show ?thesis by simp
qed

section \<open>The clamp of the live control panel\<close>

lemma renderEach_controls:
  "\<forall>c \<in> set (fst (snd (renderEach h ids ss))).
     \<exists>x \<in> set ss. s_enabled x \<and> s_property x \<noteq> [] \<and> s_name x \<noteq> []
        \<and> c = control_of h (css_escape h (''custom_slider_'' @ s_property x)) (clampValue h x)
        \<and> c_value c = s_value (clampValue h x)"
proof (induction ss arbitrary: ids)
  case Nil
  then show ?case by simp
next
  case (Cons s ss)
  have same: "s_property (clampValue h s) = s_property s"
    by (simp add: clampValue_def Let_def)
  show ?case
    using Cons.IH [of ids]
      Cons.IH [of "css_escape h (''custom_slider_'' @ s_property s)
                   # (css_escape h (''custom_slider_'' @ s_property s) @ ''_number'') # ids"]
    by (auto simp: Let_def case_prod_beta same control_of_def)
qed

lemma clampValue_in_range:
  assumes "parseFloat h (s_min s) = Num lo" "parseFloat h (s_max s) = Num hi" "lo \<le> hi"
    "s_value s \<noteq> NaN"
  shows "js_le (Num lo) (s_value (clampValue h s)) \<and> js_le (s_value (clampValue h s)) (Num hi)"
  using assms by (cases "s_value s") (auto simp: clampValue_def js_le_def js_gt_def Let_def)

text \<open>
  Claim C7, as the code has it. Let \<open>s\<close> be an enabled slider of the active collection with
  a name and a property, and let the container be there. \<open>renderCompletionSliders\<close> stores
  \<open>clampValue h s\<close> in its place, and every control of the panel shows the clamped value of
  such a slider. When \<open>parseFloat(min)\<close> and \<open>parseFloat(max)\<close> are numbers with
  \<open>min \<le> max\<close> and the stored value is not \<open>NaN\<close>, the new value lies between them; with
  the bounds 0 and 1, the value 5 becomes 1 and the value -5 becomes 0.
\<close>

theorem render_clamps_value:
  assumes "has_container h"
    and "findIndex active (collections st) = Some a"
    and "ss = sliders (collections st ! a)"
    and "i < length ss" and "s = ss ! i"
    and "s_enabled s" and "s_property s \<noteq> []" and "s_name s \<noteq> []"
    and "r = renderEach h (document_ids h) ss"
  shows "renderCompletionSliders h st
           = (st\<lparr>collections := (collections st)[a := (collections st ! a)\<lparr>sliders := fst r\<rparr>]\<rparr>,
              snd (snd r) @ [LivePanel (fst (snd r))])
   \<and> fst r ! i = clampValue h s
   \<and> (\<forall>c \<in> set (fst (snd r)).
         \<exists>x \<in> set ss. s_enabled x \<and> s_property x \<noteq> [] \<and> s_name x \<noteq> []
            \<and> c = control_of h (css_escape h (''custom_slider_'' @ s_property x)) (clampValue h x)
            \<and> c_value c = s_value (clampValue h x))
   \<and> (parseFloat h (s_min s) = Num lo \<and> parseFloat h (s_max s) = Num hi \<and> lo \<le> hi
        \<and> s_value s \<noteq> NaN \<longrightarrow>
        js_le (Num lo) (s_value (clampValue h s)) \<and> js_le (s_value (clampValue h s)) (Num hi))
   \<and> (parseFloat h (s_min s) = Num 0 \<and> parseFloat h (s_max s) = Num 1 \<longrightarrow>
        (s_value s = Num 5 \<longrightarrow> s_value (clampValue h s) = Num 1)
        \<and> (s_value s = Num (- 5) \<longrightarrow> s_value (clampValue h s) = Num 0))"
proof -
  have 1: "renderCompletionSliders h st
           = (st\<lparr>collections := (collections st)[a := (collections st ! a)\<lparr>sliders := fst r\<rparr>]\<rparr>,
              snd (snd r) @ [LivePanel (fst (snd r))])"
    using assms(1,2,3,9) by (simp add: renderCompletionSliders_def Let_def case_prod_beta)
  have 2: "fst r ! i = clampValue h s"
    using assms(4-9) by (simp add: fst_renderEach rendered_def)
  have 3: "\<forall>c \<in> set (fst (snd r)).
         \<exists>x \<in> set ss. s_enabled x \<and> s_property x \<noteq> [] \<and> s_name x \<noteq> []
            \<and> c = control_of h (css_escape h (''custom_slider_'' @ s_property x)) (clampValue h x)
            \<and> c_value c = s_value (clampValue h x)"
    using renderEach_controls [of h "document_ids h" ss] assms(9) by simp
  have 4: "parseFloat h (s_min s) = Num lo \<and> parseFloat h (s_max s) = Num hi \<and> lo \<le> hi
        \<and> s_value s \<noteq> NaN \<longrightarrow>
        js_le (Num lo) (s_value (clampValue h s)) \<and> js_le (s_value (clampValue h s)) (Num hi)"
    using clampValue_in_range [of h s lo hi] by blast
  have 5: "parseFloat h (s_min s) = Num 0 \<and> parseFloat h (s_max s) = Num 1 \<longrightarrow>
        (s_value s = Num 5 \<longrightarrow> s_value (clampValue h s) = Num 1)
        \<and> (s_value s = Num (- 5) \<longrightarrow> s_value (clampValue h s) = Num 0)"
    by (simp add: clampValue_def js_gt_def Let_def)
  from 1 2 3 4 5 show ?thesis by blast
qed

lemma renderEach_single:
  "s_enabled s \<Longrightarrow> s_property s \<noteq> [] \<Longrightarrow> s_name s \<noteq> [] \<Longrightarrow>
   renderEach h [] [s]
     = ([clampValue h s],
        [control_of h (css_escape h (''custom_slider_'' @ s_property s)) (clampValue h s)], [])"
  by (simp add: Let_def clampValue_def)

text \<open>
  The slider \<open>X\<close> with the bounds \<open>"0"\<close> and \<open>"1"\<close> and the stored value 5, then -5: the
  settings and the panel after rendering.
\<close>

theorem render_clamps_value_witness:
  "renderCompletionSliders example_host (example_settings [unit_slider (Num 5)])
     = (example_settings [unit_slider (Num 1)],
        [LivePanel [\<lparr>c_title = ''X'', c_id = ''custom_slider_p'', c_min = ''0'', c_max = ''1'',
                     c_step = ''0.01'', c_value = Num 1, c_hidden = False\<rparr>]])
   \<and> renderCompletionSliders example_host (example_settings [unit_slider (Num (- 5))])
     = (example_settings [unit_slider (Num 0)],
        [LivePanel [\<lparr>c_title = ''X'', c_id = ''custom_slider_p'', c_min = ''0'', c_max = ''1'',
                     c_step = ''0.01'', c_value = Num 0, c_hidden = False\<rparr>]])"
proof -
  have c: "has_container example_host" by (simp add: example_host_def)
  have d: "document_ids example_host = []" by (simp add: example_host_def)
  have f: "findIndex active (collections (example_settings [unit_slider v])) = Some 0" for v
    by (simp add: example_settings_def collection_of_def)
  have s: "[unit_slider v] = sliders (collections (example_settings [unit_slider v]) ! 0)" for v
    by (simp add: example_settings_def collection_of_def)
  have p1: "0 < length [unit_slider v]" for v by simp
  have p2: "unit_slider v = [unit_slider v] ! 0" for v by simp
  have p3: "s_enabled (unit_slider v)" for v by (simp add: unit_slider_def)
  have p4: "s_property (unit_slider v) \<noteq> []" for v by (simp add: unit_slider_def)
  have p5: "s_name (unit_slider v) \<noteq> []" for v by (simp add: unit_slider_def)
  have e: "renderEach example_host [] [unit_slider v]
     = ([clampValue example_host (unit_slider v)],
        [control_of example_host ''custom_slider_p'' (clampValue example_host (unit_slider v))], [])"
    for v
    using renderEach_single [of "unit_slider v" example_host] p3 [of v] p4 [of v] p5 [of v]
    by (simp add: unit_slider_def example_host_def)
  have r: "renderEach example_host [] [unit_slider v]
             = renderEach example_host (document_ids example_host) [unit_slider v]" for v
    by (simp only: d)
  have c5: "clampValue example_host (unit_slider (Num 5)) = unit_slider (Num 1)"
    by (simp add: clampValue_def unit_slider_def js_gt_def)
  have c5': "clampValue example_host (unit_slider (Num (- 5))) = unit_slider (Num 0)"
    by (simp add: clampValue_def unit_slider_def js_gt_def)
  have ctl: "control_of example_host ''custom_slider_p'' (unit_slider v)
      = \<lparr>c_title = ''X'', c_id = ''custom_slider_p'', c_min = ''0'', c_max = ''1'',
          c_step = ''0.01'', c_value = v, c_hidden = False\<rparr>" for v
    by (simp add: control_of_def unit_slider_def example_host_def)
  have st: "(example_settings [x])\<lparr>collections :=
       (collections (example_settings [x]))[0 := (collections (example_settings [x]) ! 0)
          \<lparr>sliders := [y]\<rparr>]\<rparr> = example_settings [y]" for x y
    by (simp add: example_settings_def collection_of_def)
  have main: "renderCompletionSliders example_host (example_settings [unit_slider v])
     = (example_settings [clampValue example_host (unit_slider v)],
        [LivePanel [control_of example_host ''custom_slider_p''
                      (clampValue example_host (unit_slider v))]])" for v
    using render_clamps_value [OF c f [of v] s [of v] p1 [of v] p2 [of v] p3 [of v] p4 [of v]
        p5 [of v] r [of v], THEN conjunct1]
    unfolding e by (simp add: st)
  have a1: "renderCompletionSliders example_host (example_settings [unit_slider (Num 5)])
     = (example_settings [unit_slider (Num 1)],
        [LivePanel [\<lparr>c_title = ''X'', c_id = ''custom_slider_p'', c_min = ''0'', c_max = ''1'',
                     c_step = ''0.01'', c_value = Num 1, c_hidden = False\<rparr>]])"
    using main [of "Num 5"] unfolding c5 ctl .
  have a2: "renderCompletionSliders example_host (example_settings [unit_slider (Num (- 5))])
     = (example_settings [unit_slider (Num 0)],
        [LivePanel [\<lparr>c_title = ''X'', c_id = ''custom_slider_p'', c_min = ''0'', c_max = ''1'',
                     c_step = ''0.01'', c_value = Num 0, c_hidden = False\<rparr>]])"
    using main [of "Num (- 5)"] unfolding c5' ctl .
  from a1 a2 show ?thesis by simp
qed

text \<open>
  Claim C7 as the specification words it fails where the bounds do not form an interval:
  with \<open>min = "2"\<close> and \<open>max = "1"\<close> the value 0 is stored as 1, below \<open>parseFloat(min)\<close>,
  and with an empty \<open>min\<close> (\<open>parseFloat\<close> gives \<open>NaN\<close>) the value -5 stays. A stored
  \<open>NaN\<close> stays as well, whatever the bounds.
\<close>

theorem render_leaves_value_outside:
  "fst (renderCompletionSliders example_host
          (example_settings [(unit_slider (Num 0))\<lparr>s_min := ''2''\<rparr>]))
     = example_settings [(unit_slider (Num 1))\<lparr>s_min := ''2''\<rparr>]
   \<and> \<not> js_le (parseFloat example_host ''2'') (Num 1)
   \<and> fst (renderCompletionSliders example_host
          (example_settings [(unit_slider (Num (- 5)))\<lparr>s_min := []\<rparr>]))
     = example_settings [(unit_slider (Num (- 5)))\<lparr>s_min := []\<rparr>]
   \<and> \<not> js_le (parseFloat example_host []) (Num (- 5))
   \<and> fst (renderCompletionSliders example_host (example_settings [unit_slider NaN]))
     = example_settings [unit_slider NaN]
   \<and> \<not> js_le (parseFloat example_host ''0'') NaN"
  by (simp add: fst_renderCompletionSliders with_sliders_def example_settings_def
      collection_of_def rendered_def clampValue_def unit_slider_def js_le_def js_gt_def)
     (simp add: example_host_def)

section \<open>Slider values in the request body\<close>

lemma mergeYamlIntoObject_empty: "mergeYamlIntoObject h obj [] = obj"
  by (simp add: mergeYamlIntoObject_def)

lemma slider_values_temp: "slider_values [temp_slider] = temperature_body"
  by (simp add: slider_values_def slider_object_def empty_object_def set_property_def
      temp_slider_def isNaN_def temperature_body_def)

lemma customObject_temp:
  "sliders c = [temp_slider] \<Longrightarrow> custom_include_body data = [] \<Longrightarrow>
   customObject h c data = \<lparr>own_keys = temperature_body, prototype = ObjectPrototype\<rparr>"
  by (simp add: customObject_def mergeYamlIntoObject_empty slider_values_temp)
    (simp add: temperature_body_def object_assign_def set_property_def empty_object_def)

lemma customBody_temp:
  "sliders c = [temp_slider] \<Longrightarrow> custom_include_body data = [] \<Longrightarrow>
   customBody h c data = temperature_body"
  by (simp add: customBody_def customObject_temp)

text \<open>
  Claim C2, as the code has it. With the source \<open>custom\<close> and the active collection \<open>c\<close>,
  the handler sets the body-merge text to \<open>yaml.stringify\<close> of an object that has the
  prototype of the object merged from the old text and in which every key has the value of
  the last contributing slider (enabled, non-empty property other than \<open>__proto__\<close>, value
  not \<open>NaN\<close>) with this property, and the value parsed from the old text when there is
  none: slider pairs overwrite parsed keys, and a later slider overwrites an earlier one
  with the same property. A slider with the property \<open>__proto__\<close> changes nothing: the
  object is the one computed without it. For the single slider \<open>Temp\<close> and the empty text
  the object is \<open>{temperature: 1.5}\<close>, which is what parsing the new text yields whenever
  \<open>yaml.parse\<close> reads back what \<open>yaml.stringify\<close> wrote.
\<close>

theorem request_body_merge:
  assumes "chat_completion_source data = ''custom''"
    and "find active (collections st) = Some c"
    and "parsed = mergeYamlIntoObject h empty_object (custom_include_body data)"
    and "body = customObject h c data"
  shows "on_CHAT_COMPLETION_SETTINGS_READY h st data
           = data\<lparr>custom_include_body := yaml_stringify h body\<rparr>
   \<and> prototype body = prototype parsed
   \<and> (\<forall>k. map_of (own_keys body) k
          = (case injected (sliders c) k of
               Some v \<Rightarrow> Some v
             | None \<Rightarrow> map_of (own_keys parsed) k))
   \<and> (\<forall>xs s ys. sliders c = xs @ s # ys \<and> contributes s
          \<and> (\<forall>t \<in> set ys. contributes t \<longrightarrow> s_property t \<noteq> s_property s)
          \<longrightarrow> map_of (own_keys body) (s_property s) = Some (YNumber (s_value s)))
   \<and> (\<forall>k. (\<forall>t \<in> set (sliders c). contributes t \<longrightarrow> s_property t \<noteq> k)
          \<longrightarrow> map_of (own_keys body) k = map_of (own_keys parsed) k)
   \<and> (\<forall>xs s ys. sliders c = xs @ s # ys \<and> s_property s = ''__proto__''
          \<longrightarrow> body = customObject h (c\<lparr>sliders := xs @ ys\<rparr>) data)
   \<and> (sliders c = [temp_slider] \<and> custom_include_body data = [] \<longrightarrow>
        body = \<lparr>own_keys = temperature_body, prototype = ObjectPrototype\<rparr>
        \<and> (yaml_parse h (yaml_stringify h
                \<lparr>own_keys = temperature_body, prototype = ObjectPrototype\<rparr>)
              = Some (YMap temperature_body)
             \<longrightarrow> yaml_parse h (custom_include_body (on_CHAT_COMPLETION_SETTINGS_READY h st data))
                   = Some (YMap temperature_body)))"
proof -
  have 1: "on_CHAT_COMPLETION_SETTINGS_READY h st data
           = data\<lparr>custom_include_body := yaml_stringify h body\<rparr>"
    using assms(1,2,4) by (simp add: on_ready_custom)
  have 0: "prototype body = prototype parsed"
    unfolding assms(3,4) by (rule prototype_customObject)
  have 2: "\<forall>k. map_of (own_keys body) k
          = (case injected (sliders c) k of
               Some v \<Rightarrow> Some v
             | None \<Rightarrow> map_of (own_keys parsed) k)"
    unfolding assms(3,4) using map_of_customBody [of h c data] by (simp add: customBody_def)
  have 3: "\<forall>xs s ys. sliders c = xs @ s # ys \<and> contributes s
          \<and> (\<forall>t \<in> set ys. contributes t \<longrightarrow> s_property t \<noteq> s_property s)
          \<longrightarrow> map_of (own_keys body) (s_property s) = Some (YNumber (s_value s))"
    using 2 injected_last by simp
  have 4: "\<forall>k. (\<forall>t \<in> set (sliders c). contributes t \<longrightarrow> s_property t \<noteq> k)
          \<longrightarrow> map_of (own_keys body) k = map_of (own_keys parsed) k"
    using 2 injected_none by simp
  have 5: "body = customObject h (c\<lparr>sliders := xs @ ys\<rparr>) data"
    if "sliders c = xs @ s # ys" "s_property s = ''__proto__''" for xs s ys
  proof -
    from that(2) have "\<not> contributes s" by (simp add: contributes_def)
    then have "slider_values (xs @ s # ys) = slider_values (xs @ ys)" by (rule slider_values_skip)
    with that(1) show ?thesis by (simp add: assms(4) customObject_def)
  qed
  have 6: "sliders c = [temp_slider] \<and> custom_include_body data = [] \<longrightarrow>
        body = \<lparr>own_keys = temperature_body, prototype = ObjectPrototype\<rparr>
        \<and> (yaml_parse h (yaml_stringify h
                \<lparr>own_keys = temperature_body, prototype = ObjectPrototype\<rparr>)
              = Some (YMap temperature_body)
             \<longrightarrow> yaml_parse h (custom_include_body (on_CHAT_COMPLETION_SETTINGS_READY h st data))
                   = Some (YMap temperature_body))"
    using 1 assms(4) customObject_temp [of c data h] by simp
  from 5 have 5: "\<forall>xs s ys. sliders c = xs @ s # ys \<and> s_property s = ''__proto__''
          \<longrightarrow> body = customObject h (c\<lparr>sliders := xs @ ys\<rparr>) data"
    by blast
  from 1 0 2 3 4 5 6 show ?thesis by blast
qed

text \<open>The scenario of the specification on the example host.\<close>

theorem request_body_merge_witness:
  "on_CHAT_COMPLETION_SETTINGS_READY example_host (example_settings [temp_slider])
       (custom_request [])
     = custom_request (''temperature: 1.5'' @ [CHR 0x0A])
   \<and> yaml_parse example_host (''temperature: 1.5'' @ [CHR 0x0A])
       = Some (YMap [(''temperature'', YNumber (Num 1.5))])
   \<and> customObject example_host (collection_of True ''A'' [temp_slider] []) (custom_request [])
       = \<lparr>own_keys = [(''temperature'', YNumber (Num 1.5))], prototype = ObjectPrototype\<rparr>
   \<and> map_of (customBody example_host (collection_of True ''A'' [temp_slider] [])
                (custom_request [])) ''temperature''
       = Some (YNumber (Num 1.5))"
proof -
  let ?c = "collection_of True ''A'' [temp_slider] []"
  have a: "chat_completion_source (custom_request []) = ''custom''"
    by (simp add: custom_request_def)
  have b: "find active (collections (example_settings [temp_slider])) = Some ?c" by simp
  have s: "sliders ?c = [temp_slider]" by (simp add: collection_of_def)
  have e: "custom_include_body (custom_request []) = []" by (simp add: custom_request_def)
  note t = request_body_merge [OF a b refl refl, of example_host]
  from t s e have body: "customObject example_host ?c (custom_request [])
      = \<lparr>own_keys = temperature_body, prototype = ObjectPrototype\<rparr>"
    by blast
  have 1: "on_CHAT_COMPLETION_SETTINGS_READY example_host (example_settings [temp_slider])
       (custom_request []) = custom_request (''temperature: 1.5'' @ [CHR 0x0A])"
    using t [THEN conjunct1] unfolding body
    by (simp add: custom_request_def example_host_def example_yaml_stringify_def
        temperature_body_def empty_object_def)
  have 2: "yaml_parse example_host (''temperature: 1.5'' @ [CHR 0x0A])
       = Some (YMap [(''temperature'', YNumber (Num 1.5))])"
    by (simp add: example_host_def example_yaml_parse_def temperature_body_def)
  have 3: "customObject example_host ?c (custom_request [])
       = \<lparr>own_keys = [(''temperature'', YNumber (Num 1.5))], prototype = ObjectPrototype\<rparr>"
    unfolding body by (simp add: temperature_body_def)
  have 4: "map_of (customBody example_host ?c (custom_request [])) ''temperature''
       = Some (YNumber (Num 1.5))"
    unfolding customBody_def body by (simp add: temperature_body_def)
  from 1 2 3 4 show ?thesis by simp
qed

text \<open>
  Claim C2 as the specification words it fails in two ways. Of two enabled sliders with
  the same property the pair of the first, \<open>{temperature: 1.5}\<close>, is not in the body: the
  second has overwritten it. And an enabled slider with the property \<open>__proto__\<close> and the
  value 1.5 puts no pair into the body: the object stays empty.
\<close>

theorem earlier_slider_overwritten:
  "contributes temp_slider
   \<and> customBody example_host
        (collection_of True ''A'' [temp_slider, temp_slider\<lparr>s_name := ''Second'', s_value := Num 0.5\<rparr>] [])
        (custom_request [])
       = [(''temperature'', YNumber (Num 0.5))]
   \<and> map_of (customBody example_host
        (collection_of True ''A'' [temp_slider, temp_slider\<lparr>s_name := ''Second'', s_value := Num 0.5\<rparr>] [])
        (custom_request [])) (s_property temp_slider)
       \<noteq> Some (YNumber (s_value temp_slider))
   \<and> s_enabled (temp_slider\<lparr>s_property := ''__proto__''\<rparr>)
   \<and> s_property (temp_slider\<lparr>s_property := ''__proto__''\<rparr>) \<noteq> []
   \<and> \<not> isNaN (s_value (temp_slider\<lparr>s_property := ''__proto__''\<rparr>))
   \<and> customObject example_host
        (collection_of True ''A'' [temp_slider\<lparr>s_property := ''__proto__''\<rparr>] [])
        (custom_request [])
       = empty_object
   \<and> map_of (customBody example_host
        (collection_of True ''A'' [temp_slider\<lparr>s_property := ''__proto__''\<rparr>] [])
        (custom_request [])) ''__proto__''
       = None"
  by (simp add: contributes_def customBody_def customObject_def mergeYamlIntoObject_def
      slider_values_def slider_object_def empty_object_def set_property_def reaches_setter_def
      temp_slider_def isNaN_def object_assign_def collection_of_def custom_request_def)

section \<open>Sliders without a property or without a name\<close>

lemma slider_values_rename:
  "slider_values (map (\<lambda>x. x\<lparr>s_name := n x\<rparr>) ss) = slider_values ss"
proof (induction ss rule: rev_induct)
  case Nil
  then show ?case by simp
next
  case (snoc s ss)
  then show ?case by (simp add: slider_values_snoc contributes_def)
qed

lemma renderEach_skip:
  "s_property s = [] \<or> s_name s = [] \<Longrightarrow>
   snd (renderEach h ids (xs @ s # ys)) = snd (renderEach h ids (xs @ ys))"
proof (induction xs arbitrary: ids)
  case Nil
  then show ?case by (auto simp: case_prod_beta)
next
  case (Cons x xs)
  have "snd (renderEach h ids' (xs @ s # ys)) = snd (renderEach h ids' (xs @ ys))" for ids'
    using Cons.IH [OF Cons.prems] .
  then show ?case by (simp add: Let_def case_prod_beta)
qed

text \<open>
  Claim C4, as the code has it. A slider with an empty property adds nothing to the request
  body: the object handed to \<open>yaml.stringify\<close> is the one computed without it. A slider
  with an empty property or an empty name gets no control, raises no warning and keeps its
  stored value: the panel and the toasts are those of the list without it, whatever its
  enabled flag and value. The request body does not read the name of a slider at all.
\<close>

theorem empty_property_or_name:
  "(s_property s = [] \<longrightarrow>
      slider_values (xs @ s # ys) = slider_values (xs @ ys)
      \<and> customBody h (c\<lparr>sliders := xs @ s # ys\<rparr>) data
          = customBody h (c\<lparr>sliders := xs @ ys\<rparr>) data
      \<and> customObject h (c\<lparr>sliders := xs @ s # ys\<rparr>) data
          = customObject h (c\<lparr>sliders := xs @ ys\<rparr>) data)
   \<and> (s_property s = [] \<or> s_name s = [] \<longrightarrow>
      snd (renderEach h ids (xs @ s # ys)) = snd (renderEach h ids (xs @ ys))
      \<and> fst (renderEach h ids (xs @ s # ys)) = map (rendered h) xs @ s # map (rendered h) ys)
   \<and> slider_values (map (\<lambda>x. x\<lparr>s_name := n x\<rparr>) ss) = slider_values ss"
proof -
  have 1: "s_property s = [] \<longrightarrow>
      slider_values (xs @ s # ys) = slider_values (xs @ ys)
      \<and> customBody h (c\<lparr>sliders := xs @ s # ys\<rparr>) data
          = customBody h (c\<lparr>sliders := xs @ ys\<rparr>) data
      \<and> customObject h (c\<lparr>sliders := xs @ s # ys\<rparr>) data
          = customObject h (c\<lparr>sliders := xs @ ys\<rparr>) data"
    using slider_values_skip [of s xs ys]
    by (simp add: customBody_def customObject_def contributes_def)
  have 2: "s_property s = [] \<or> s_name s = [] \<longrightarrow>
      snd (renderEach h ids (xs @ s # ys)) = snd (renderEach h ids (xs @ ys))
      \<and> fst (renderEach h ids (xs @ s # ys)) = map (rendered h) xs @ s # map (rendered h) ys"
    using renderEach_skip [of s h ids xs ys] by (auto simp: fst_renderEach rendered_def)
  from 1 2 slider_values_rename show ?thesis by blast
qed

text \<open>
  The slider \<open>Temp\<close> without a property, and without a name, behind an unnamed slider in
  front of the slider \<open>X\<close>.
\<close>

theorem empty_property_or_name_witness:
  "slider_values [temp_slider\<lparr>s_property := []\<rparr>, unit_slider (Num 1)]
     = slider_values [unit_slider (Num 1)]
   \<and> snd (renderEach example_host [] [temp_slider\<lparr>s_name := []\<rparr>, unit_slider (Num 1)])
     = snd (renderEach example_host [] [unit_slider (Num 1)])
   \<and> fst (renderEach example_host [] [temp_slider\<lparr>s_name := []\<rparr>, unit_slider (Num 1)])
     = [temp_slider\<lparr>s_name := []\<rparr>, unit_slider (Num 1)]"
proof -
  have p: "s_property (temp_slider\<lparr>s_property := []\<rparr>) = []" by simp
  have n: "s_name (temp_slider\<lparr>s_name := []\<rparr>) = []" by simp
  have 1: "slider_values [temp_slider\<lparr>s_property := []\<rparr>, unit_slider (Num 1)]
     = slider_values [unit_slider (Num 1)]"
    using empty_property_or_name [where s = "temp_slider\<lparr>s_property := []\<rparr>" and xs = "[]"
        and ys = "[unit_slider (Num 1)]"] p
    by simp
  have 2: "snd (renderEach example_host [] [temp_slider\<lparr>s_name := []\<rparr>, unit_slider (Num 1)])
     = snd (renderEach example_host [] [unit_slider (Num 1)])
   \<and> fst (renderEach example_host [] [temp_slider\<lparr>s_name := []\<rparr>, unit_slider (Num 1)])
     = [temp_slider\<lparr>s_name := []\<rparr>, unit_slider (Num 1)]"
    using empty_property_or_name [where s = "temp_slider\<lparr>s_name := []\<rparr>" and xs = "[]"
        and ys = "[unit_slider (Num 1)]" and h = example_host and ids = "[]"] n
    by (simp add: rendered_unit_slider)
  from 1 2 show ?thesis by simp
qed

text \<open>
  Claim C4 as the specification words it fails for the request body: the enabled slider
  \<open>Temp\<close> without a name still puts \<open>temperature: 1.5\<close> into the request.
\<close>

theorem unnamed_slider_injected:
  "s_name (temp_slider\<lparr>s_name := []\<rparr>) = []
   \<and> customBody example_host (collection_of True ''A'' [temp_slider\<lparr>s_name := []\<rparr>] [])
        (custom_request [])
       = [(''temperature'', YNumber (Num 1.5))]
   \<and> on_CHAT_COMPLETION_SETTINGS_READY example_host
        (example_settings [temp_slider\<lparr>s_name := []\<rparr>]) (custom_request [])
       = custom_request (''temperature: 1.5'' @ [CHR 0x0A])"
  by (simp add: on_CHAT_COMPLETION_SETTINGS_READY_def customBody_def customObject_def
      mergeYamlIntoObject_def slider_values_def slider_object_def empty_object_def
      set_property_def temp_slider_def isNaN_def object_assign_def collection_of_def
      custom_request_def example_host_def example_yaml_stringify_def temperature_body_def)

section \<open>A request when no slider is enabled\<close>

lemma slider_values_none_enabled:
  "\<forall>s \<in> set ss. \<not> s_enabled s \<Longrightarrow> slider_values ss = []"
proof -
  assume "\<forall>s \<in> set ss. \<not> s_enabled s"
  then have "filter s_enabled ss = []" by (simp add: filter_empty_conv)
  then show ?thesis by (simp add: slider_values_def slider_object_def empty_object_def)
qed

text \<open>
  Claim C5, as the code has it. When the source is \<open>custom\<close> and no slider of the active
  collection is enabled, no slider key is added, but the field is still written: it becomes
  \<open>yaml.stringify\<close> of the object merged from the old text, which for the empty text is the
  empty object. So the field keeps its input value exactly when \<open>yaml.stringify\<close> returns
  that text.
\<close>

theorem no_enabled_slider:
  assumes "chat_completion_source data = ''custom''"
    and "find active (collections st) = Some c"
    and "\<forall>s \<in> set (sliders c). \<not> s_enabled s"
    and "parsed = mergeYamlIntoObject h empty_object (custom_include_body data)"
  shows "customObject h c data = parsed
   \<and> on_CHAT_COMPLETION_SETTINGS_READY h st data
       = data\<lparr>custom_include_body := yaml_stringify h parsed\<rparr>
   \<and> (custom_include_body data = [] \<longrightarrow>
        on_CHAT_COMPLETION_SETTINGS_READY h st data
          = data\<lparr>custom_include_body := yaml_stringify h empty_object\<rparr>)
   \<and> (custom_include_body (on_CHAT_COMPLETION_SETTINGS_READY h st data)
        = custom_include_body data)
       = (yaml_stringify h parsed = custom_include_body data)"
proof -
  have 1: "customObject h c data = parsed"
    using slider_values_none_enabled [OF assms(3)]
    by (simp add: customObject_def object_assign_def assms(4))
  have 2: "on_CHAT_COMPLETION_SETTINGS_READY h st data
       = data\<lparr>custom_include_body := yaml_stringify h parsed\<rparr>"
    using assms(1,2) 1 by (simp add: on_ready_custom)
  have 3: "custom_include_body data = [] \<longrightarrow>
        on_CHAT_COMPLETION_SETTINGS_READY h st data
          = data\<lparr>custom_include_body := yaml_stringify h empty_object\<rparr>"
    using 2 by (simp add: assms(4) mergeYamlIntoObject_def)
  have 4: "(custom_include_body (on_CHAT_COMPLETION_SETTINGS_READY h st data)
        = custom_include_body data)
       = (yaml_stringify h parsed = custom_include_body data)"
    unfolding 2 by simp
  from 1 2 3 4 show ?thesis by blast
qed

text \<open>The disabled slider \<open>Temp\<close> with the empty text.\<close>

theorem no_enabled_slider_witness:
  "customObject example_host (collection_of True ''A'' [temp_slider\<lparr>s_enabled := False\<rparr>] [])
       (custom_request [])
     = empty_object
   \<and> on_CHAT_COMPLETION_SETTINGS_READY example_host
       (example_settings [temp_slider\<lparr>s_enabled := False\<rparr>]) (custom_request [])
     = custom_request (yaml_stringify example_host empty_object)"
proof -
  let ?st = "example_settings [temp_slider\<lparr>s_enabled := False\<rparr>]"
  let ?c = "collection_of True ''A'' [temp_slider\<lparr>s_enabled := False\<rparr>] []"
  have a: "chat_completion_source (custom_request []) = ''custom''"
    by (simp add: custom_request_def)
  have b: "find active (collections ?st) = Some ?c" by simp
  have n: "\<forall>s \<in> set (sliders ?c). \<not> s_enabled s" by (simp add: collection_of_def)
  have e: "custom_include_body (custom_request []) = []" by (simp add: custom_request_def)
  note t = no_enabled_slider [OF a b n refl, of example_host]
  have 1: "customObject example_host ?c (custom_request []) = empty_object"
    using t [THEN conjunct1] by (simp add: e mergeYamlIntoObject_def)
  from t e have "on_CHAT_COMPLETION_SETTINGS_READY example_host ?st (custom_request [])
     = (custom_request [])\<lparr>custom_include_body := yaml_stringify example_host empty_object\<rparr>"
    by blast
  then have 2: "on_CHAT_COMPLETION_SETTINGS_READY example_host ?st (custom_request [])
     = custom_request (yaml_stringify example_host empty_object)"
    by (simp add: custom_request_def)
  from 1 2 show ?thesis by simp
qed

text \<open>
  Claim C5 as the specification words it fails: for the disabled slider \<open>Temp\<close> and the
  empty text the field becomes \<open>"{}\n"\<close>, the text of the empty object.
\<close>

theorem disabled_slider_rewrites_text:
  "custom_include_body (on_CHAT_COMPLETION_SETTINGS_READY example_host
       (example_settings [temp_slider\<lparr>s_enabled := False\<rparr>]) (custom_request []))
     = ''{}'' @ [CHR 0x0A]
   \<and> custom_include_body (on_CHAT_COMPLETION_SETTINGS_READY example_host
       (example_settings [temp_slider\<lparr>s_enabled := False\<rparr>]) (custom_request []))
     \<noteq> custom_include_body (custom_request [])"
  by (simp add: on_CHAT_COMPLETION_SETTINGS_READY_def customObject_def mergeYamlIntoObject_def
      slider_values_def slider_object_def empty_object_def temp_slider_def object_assign_def
      collection_of_def custom_request_def example_host_def example_yaml_stringify_def)

section \<open>The lifecycle operations keep one collection active\<close>

lemma create_fresh:
  assumes "base_invariant s" "nm \<noteq> []" "nm \<notin> set (map name (collections s))"
  shows "fst (createCollection h (Some nm) s) = fst (renderSliderConfigs h (appended nm [] s))"
  using assms createCollection_cases [of h "Some nm" s]
  by (simp add: base_invariant_running createCollection_def appended_def find_name Let_def)

lemma import_fresh:
  assumes "json_parse h content = Some (JArray ps)" "nm \<noteq> []"
    "nm \<notin> set (map name (collections s))"
  shows "fst (importFile_onload h fname content (Some nm) s)
           = fst (renderSliderConfigs h (appended nm ps s))"
  using assms
  by (simp add: importFile_onload_def processImport_def appended_def find_name Let_def
      case_prod_beta)

lemma delete_confirmed:
  assumes "base_invariant s" "length (collections s) \<noteq> 1"
    "findIndex active (collections s) = Some i"
  shows "fst (deleteCollection h True s) = fst (renderSliderConfigs h (removed i s))"
  using assms by (simp add: base_invariant_running deleteCollection_def removed_def Let_def)

lemma length_removed:
  "i < length (collections t) \<Longrightarrow> length (collections (removed i t)) + 1 = length (collections t)"
proof -
  assume i: "i < length (collections t)"
  have "length (case xs of [] \<Rightarrow> [] | c # r \<Rightarrow> c\<lparr>active := True\<rparr> # r) = length xs"
    for xs :: "SliderCollection list" by (cases xs) auto
  then show ?thesis using i by (simp add: removed_def)
qed

lemma length_render [simp]:
  "length (collections (fst (renderSliderConfigs h s))) = length (collections s)"
  using render_active [of h s] by (metis length_map)

text \<open>
  Claim C1, as the code has it. From a state with a non-empty collection list and exactly
  one active collection, create-collection, delete-collection, import and the preset-change
  reaction lead to such a state again, whatever the dialogs answer. The dropdown does so
  when the collection names are pairwise distinct and its value is one of them; the five
  operations keep the names distinct. With a fresh, non-empty name create and import append
  the new collection and make it the active one, and a confirmed delete of one of several
  collections removes one.
\<close>

theorem lifecycle_keeps_one_active:
  assumes "base_invariant s"
  shows "base_invariant (fst (createCollection h response s))
   \<and> base_invariant (fst (deleteCollection h confirm s))
   \<and> base_invariant (fst (importFile_onload h fname content response s))
   \<and> base_invariant (fst (on_OAI_PRESET_CHANGED_AFTER h s))
   \<and> (names_distinct s \<and> selectedName \<in> set (map name (collections s)) \<longrightarrow>
        base_invariant (fst (collections_change h selectedName s)))
   \<and> (names_distinct s \<longrightarrow>
        names_distinct (fst (createCollection h response s))
        \<and> names_distinct (fst (deleteCollection h confirm s))
        \<and> names_distinct (fst (importFile_onload h fname content response s))
        \<and> names_distinct (fst (on_OAI_PRESET_CHANGED_AFTER h s))
        \<and> names_distinct (fst (collections_change h selectedName s)))
   \<and> (nm \<noteq> [] \<and> nm \<notin> set (map name (collections s)) \<longrightarrow>
        map name (collections (fst (createCollection h (Some nm) s)))
          = map name (collections s) @ [nm]
        \<and> map active (collections (fst (createCollection h (Some nm) s)))
          = map (\<lambda>c. False) (collections s) @ [True])
   \<and> (nm \<noteq> [] \<and> nm \<notin> set (map name (collections s))
        \<and> json_parse h content = Some (JArray ps) \<longrightarrow>
        map name (collections (fst (importFile_onload h fname content (Some nm) s)))
          = map name (collections s) @ [nm]
        \<and> map active (collections (fst (importFile_onload h fname content (Some nm) s)))
          = map (\<lambda>c. False) (collections s) @ [True])
   \<and> (length (collections s) \<noteq> 1 \<longrightarrow>
        length (collections (fst (deleteCollection h True s))) + 1 = length (collections s))"
proof -
  have run: "running s = s" using assms by (rule base_invariant_running)
  obtain a where a: "findIndex active (collections s) = Some a"
    using findIndex_active_ex [OF assms] by blast
  have c1: "base_invariant (fst (createCollection h response s))"
    using createCollection_cases [of h response s] assms run
    by (auto simp: base_invariant_appended)
  have c2: "base_invariant (fst (deleteCollection h confirm s))"
    using deleteCollection_cases [of h confirm s] assms run
    by (auto simp: base_invariant_removed)
  have c3: "base_invariant (fst (importFile_onload h fname content response s))"
    using importFile_onload_cases [of h fname content response s] assms
    by (auto simp: base_invariant_appended)
  have c4: "base_invariant (fst (on_OAI_PRESET_CHANGED_AFTER h s))"
  proof -
    from presetChanged_cases [of h s] show ?thesis
    proof
      assume "fst (on_OAI_PRESET_CHANGED_AFTER h s) = s"
      with assms show ?thesis by simp
    next
      assume "\<exists>a w. findIndex active (collections s) = Some a
        \<and> findIndex (\<lambda>c. preset_settings_openai h \<in> set (presets c)) (collections s) = Some w
        \<and> w \<noteq> a
        \<and> fst (on_OAI_PRESET_CHANGED_AFTER h s)
            = fst (renderSliderConfigs h
                 (s\<lparr>collections :=
                     ((collections s)[w := (collections s ! w)\<lparr>active := True\<rparr>])
                       [a := ((collections s)[w := (collections s ! w)\<lparr>active := True\<rparr>] ! a)
                               \<lparr>active := False\<rparr>]\<rparr>))"
      then obtain a' w where aw: "findIndex active (collections s) = Some a'"
        "findIndex (\<lambda>c. preset_settings_openai h \<in> set (presets c)) (collections s) = Some w"
        "w \<noteq> a'"
        "fst (on_OAI_PRESET_CHANGED_AFTER h s)
            = fst (renderSliderConfigs h
                 (s\<lparr>collections :=
                     ((collections s)[w := (collections s ! w)\<lparr>active := True\<rparr>])
                       [a' := ((collections s)[w := (collections s ! w)\<lparr>active := True\<rparr>] ! a')
                               \<lparr>active := False\<rparr>]\<rparr>))"
        by blast
      from findIndex_Some [OF aw(2)] have w: "w < length (collections s)" by simp
      from base_invariant_switched [OF assms aw(1) w aw(3)] aw(4) show ?thesis by simp
    qed
  qed
  have c5: "names_distinct s \<and> selectedName \<in> set (map name (collections s)) \<longrightarrow>
        base_invariant (fst (collections_change h selectedName s))"
    using base_invariant_selected [of s selectedName] by (simp add: collections_change_def)
  have n1: "names_distinct (fst (createCollection h response s))" if "names_distinct s"
    using createCollection_cases [of h response s] that run
    by (auto simp: names_distinct_def appended_names)
  have n2: "names_distinct (fst (deleteCollection h confirm s))" if "names_distinct s"
    using deleteCollection_cases [of h confirm s] that run
    by (auto simp: names_distinct_removed)
  have n3: "names_distinct (fst (importFile_onload h fname content response s))" if "names_distinct s"
    using importFile_onload_cases [of h fname content response s] that
    by (auto simp: names_distinct_def appended_names)
  have n4: "names_distinct (fst (on_OAI_PRESET_CHANGED_AFTER h s))" if "names_distinct s"
    using presetChanged_cases [of h s] that
    by (auto simp: names_distinct_def map_update_twice)
  have n5: "names_distinct (fst (collections_change h selectedName s))" if "names_distinct s"
    using that by (simp add: collections_change_def names_distinct_def comp_def)
  have e1: "map name (collections (fst (createCollection h (Some nm) s)))
          = map name (collections s) @ [nm]
        \<and> map active (collections (fst (createCollection h (Some nm) s)))
          = map (\<lambda>c. False) (collections s) @ [True]"
    if "nm \<noteq> []" "nm \<notin> set (map name (collections s))"
    using create_fresh [OF assms that] by (simp add: appended_names appended_flags)
  have e2: "map name (collections (fst (importFile_onload h fname content (Some nm) s)))
          = map name (collections s) @ [nm]
        \<and> map active (collections (fst (importFile_onload h fname content (Some nm) s)))
          = map (\<lambda>c. False) (collections s) @ [True]"
    if "nm \<noteq> []" "nm \<notin> set (map name (collections s))"
      "json_parse h content = Some (JArray ps)"
    using import_fresh [OF that(3,1,2)] by (simp add: appended_names appended_flags)
  have e3: "length (collections (fst (deleteCollection h True s))) + 1 = length (collections s)"
    if "length (collections s) \<noteq> 1"
    using delete_confirmed [OF assms that a] findIndex_Some [OF a] length_removed [of a s]
    by simp
  from c1 c2 c3 c4 c5 n1 n2 n3 n4 n5 e1 e2 e3 show ?thesis by blast
qed


text \<open>
  The collections \<open>A\<close> (active) and \<open>B\<close> (bound to the selected preset \<open>P1\<close>): the five
  operations, with the new name \<open>C\<close>, a confirmed delete, an import of the empty array,
  the preset change, and the dropdown set to \<open>B\<close>.
\<close>

theorem lifecycle_keeps_one_active_witness:
  "base_invariant \<lparr>collections = [collection_of True ''A'' [] [], collection_of False ''B'' [] [''P1'']]\<rparr>
   \<and> base_invariant (fst (createCollection example_host (Some ''C'')
        \<lparr>collections = [collection_of True ''A'' [] [], collection_of False ''B'' [] [''P1'']]\<rparr>))
   \<and> base_invariant (fst (deleteCollection example_host True
        \<lparr>collections = [collection_of True ''A'' [] [], collection_of False ''B'' [] [''P1'']]\<rparr>))
   \<and> base_invariant (fst (importFile_onload example_host ''sliders.json'' ''[]'' (Some ''C'')
        \<lparr>collections = [collection_of True ''A'' [] [], collection_of False ''B'' [] [''P1'']]\<rparr>))
   \<and> base_invariant (fst (on_OAI_PRESET_CHANGED_AFTER example_host
        \<lparr>collections = [collection_of True ''A'' [] [], collection_of False ''B'' [] [''P1'']]\<rparr>))
   \<and> base_invariant (fst (collections_change example_host ''B''
        \<lparr>collections = [collection_of True ''A'' [] [], collection_of False ''B'' [] [''P1'']]\<rparr>))
   \<and> map active (collections (fst (createCollection example_host (Some ''C'')
        \<lparr>collections = [collection_of True ''A'' [] [], collection_of False ''B'' [] [''P1'']]\<rparr>)))
       = [False, False, True]
   \<and> length (collections (fst (deleteCollection example_host True
        \<lparr>collections = [collection_of True ''A'' [] [], collection_of False ''B'' [] [''P1'']]\<rparr>)))
       = 1
   \<and> map active (collections (fst (on_OAI_PRESET_CHANGED_AFTER example_host
        \<lparr>collections = [collection_of True ''A'' [] [], collection_of False ''B'' [] [''P1'']]\<rparr>)))
       = [False, True]"
proof -
  let ?s = "\<lparr>collections = [collection_of True ''A'' [] [], collection_of False ''B'' [] [''P1'']]\<rparr>"
  have b: "base_invariant ?s"
    by (simp add: base_invariant_def active_count_def collection_of_def)
  have n: "names_distinct ?s" by (simp add: names_distinct_def collection_of_def)
  have m: "''B'' \<in> set (map name (collections ?s))" by (simp add: collection_of_def)
  have f: "''C'' \<noteq> [] \<and> ''C'' \<notin> set (map name (collections ?s))" by (simp add: collection_of_def)
  have j: "json_parse example_host ''[]'' = Some (JArray [])"
    by (simp add: example_host_def example_json_parse_def)
  have l: "length (collections ?s) \<noteq> 1" by simp
  note t = lifecycle_keeps_one_active [OF b, of example_host "Some ''C''" True "''sliders.json''"
      "''[]''" "''B''" "''C''" "[]"]
  have p: "map active (collections (fst (on_OAI_PRESET_CHANGED_AFTER example_host ?s)))
       = [False, True]"
    by (simp add: on_OAI_PRESET_CHANGED_AFTER_def collection_of_def example_host_def Let_def)
  from t b n m f j l p show ?thesis by (simp add: collection_of_def)
qed

text \<open>
  Claim C1 as the specification words it fails for the dropdown when two collections carry
  one name: the state has exactly one active collection, the dropdown is set to the name
  \<open>A\<close> of a collection, and both collections named \<open>A\<close> are active afterwards.
\<close>

theorem same_name_activates_both:
  "base_invariant \<lparr>collections = [collection_of True ''A'' [] [], collection_of False ''A'' [] []]\<rparr>
   \<and> ''A'' \<in> set (map name (collections
        \<lparr>collections = [collection_of True ''A'' [] [], collection_of False ''A'' [] []]\<rparr>))
   \<and> active_count (fst (collections_change example_host ''A''
        \<lparr>collections = [collection_of True ''A'' [] [], collection_of False ''A'' [] []]\<rparr>)) = 2
   \<and> \<not> base_invariant (fst (collections_change example_host ''A''
        \<lparr>collections = [collection_of True ''A'' [] [], collection_of False ''A'' [] []]\<rparr>))"
proof -
  let ?s = "\<lparr>collections = [collection_of True ''A'' [] [], collection_of False ''A'' [] []]\<rparr>"
  have 1: "base_invariant ?s" by (simp add: base_invariant_def active_count_def collection_of_def)
  have 2: "map active (collections (fst (collections_change example_host ''A'' ?s))) = [True, True]"
    by (simp add: collections_change_def collection_of_def)
  from 2 have 3: "active_count (fst (collections_change example_host ''A'' ?s)) = 2"
    by (simp add: active_count_map)
  from 1 3 show ?thesis by (simp add: base_invariant_def collection_of_def)
qed

section \<open>Binding a preset to the active collection\<close>




section \<open>Binding a preset that the active collection already holds\<close>

lemma holders_empty_iff: "(holders q s = []) = (bound_count q s = 0)"
  by (auto simp: bound_count_def holders_def filter_empty_conv count_list_0_iff)

lemma bound_count_two:
  assumes "w < length (collections s)" "a < length (collections s)" "w \<noteq> a"
  shows "count_list (presets (collections s ! w)) q + count_list (presets (collections s ! a)) q
           \<le> bound_count q s"
proof -
  let ?cs = "collections s"
  define t where "t = s\<lparr>collections := ?cs[w := (?cs ! w)\<lparr>presets := []\<rparr>]\<rparr>"
  have "bound_count q t + count_list (presets (?cs ! w)) q = bound_count q s"
    using bound_count_update [OF assms(1), of q "(?cs ! w)\<lparr>presets := []\<rparr>"] by (simp add: t_def)
  moreover have "count_list (presets (collections t ! a)) q \<le> bound_count q t"
    using assms(2) by (intro bound_count_ge) (simp add: t_def)
  moreover have "collections t ! a = ?cs ! a" using assms(3) by (simp add: t_def)
  ultimately show ?thesis by simp
qed

text \<open>
  Claim C10, as the code has it. Let the active collection, at position \<open>a\<close>, hold the
  selected preset name \<open>p\<close>. After \<open>bindToPreset\<close> no collection holds \<open>p\<close> exactly when \<open>p\<close>
  occurs once in all preset lists together, that is once in the list of the active
  collection and in no other list. Then \<open>bindToPreset\<close> removes \<open>p\<close> from the active
  collection and adds it nowhere, shows no toast, calls \<open>saveSettingsDebounced\<close> and renders
  the settings so changed, with the bind button switched off. In every case it calls
  \<open>saveSettingsDebounced\<close>. In a reachable state \<open>p\<close> occurs once.
\<close>

theorem bind_toggles_off:
  assumes "p = preset_settings_openai h" and "p \<noteq> []"
    and "findIndex active (collections s) = Some a"
    and "p \<in> set (presets (collections s ! a))"
    and "s1 = s\<lparr>collections := (collections s)
                  [a := (collections s ! a)\<lparr>presets := remove1 p (presets (collections s ! a))\<rparr>]\<rparr>"
  shows "(holders p (fst (bindToPreset h s)) = []) = (bound_count p s = 1)
   \<and> (bound_count p s = 1 \<longrightarrow>
        bindToPreset h s
          = (fst (renderSliderConfigs h s1), SaveSettingsDebounced # snd (renderSliderConfigs h s1))
        \<and> map presets (collections (fst (bindToPreset h s)))
            = (map presets (collections s))[a := remove1 p (presets (collections s ! a))]
        \<and> BindToggle False \<in> set (snd (bindToPreset h s))
        \<and> map active (collections (fst (bindToPreset h s))) = map active (collections s)
        \<and> map name (collections (fst (bindToPreset h s))) = map name (collections s))
   \<and> SaveSettingsDebounced \<in> set (snd (bindToPreset h s))
   \<and> (reachable s \<longrightarrow> bound_count p s = 1)"
proof -
  let ?cs = "collections s"
  let ?Q = "\<lambda>c. p \<in> set (presets c)"
  from findIndex_Some [OF assms(3)] have a: "a < length ?cs" by simp
  have run: "running s = s" using assms(3) by (rule findIndex_running)
  have "list_ex ?Q ?cs" using a assms(4) by (auto simp: list_ex_iff)
  then obtain w where w: "findIndex ?Q ?cs = Some w" using findIndex_Some_ex by blast
  from findIndex_Some [OF w] have wl: "w < length ?cs" and pw: "?Q (?cs ! w)" by simp_all
  have ca: "1 \<le> count_list (presets (?cs ! a)) p"
    using assms(4) count_list_0_iff [of "presets (?cs ! a)" p] by simp
  have cw: "1 \<le> count_list (presets (?cs ! w)) p"
    using pw count_list_0_iff [of "presets (?cs ! w)" p] by simp
  have same: "bindToPreset h s
           = (fst (renderSliderConfigs h s1), SaveSettingsDebounced # snd (renderSliderConfigs h s1))"
    if "w = a"
    using assms(1,2,3,5) w that run
    by (simp add: bindToPreset_def Let_def apsnd_def map_prod_def case_prod_beta)
  have b1: "bound_count p s1 + 1 = bound_count p s"
    using bound_count_update [OF a, of p "(?cs ! a)\<lparr>presets := remove1 p (presets (?cs ! a))\<rparr>"] ca
    by (simp add: assms(5) count_list_remove1)
  have two: "2 \<le> bound_count p s" if "w \<noteq> a"
    using bound_count_two [OF wl a that, of p] ca cw by simp
  have other: "fst (bindToPreset h s) = fst (renderSliderConfigs h
      (s\<lparr>collections := (?cs[w := (?cs ! w)\<lparr>presets := remove1 p (presets (?cs ! w))\<rparr>])
                           [a := (?cs ! a)\<lparr>presets := presets (?cs ! a) @ [p]\<rparr>]\<rparr>))"
    and other_save: "SaveSettingsDebounced \<in> set (snd (bindToPreset h s))"
    if "w \<noteq> a"
    using assms(1,2,3) w that run by (simp_all add: bindToPreset_def Let_def case_prod_beta)
  have held: "holders p (fst (bindToPreset h s)) \<noteq> []" if "w \<noteq> a"
  proof -
    have m: "map presets (collections (fst (bindToPreset h s)))
           = ((map presets ?cs)[w := remove1 p (presets (?cs ! w))])[a := presets (?cs ! a) @ [p]]"
      unfolding other [OF that] by (simp add: map_update)
    have l: "length (collections (fst (bindToPreset h s))) = length ?cs"
      using arg_cong [OF m, of length] by simp
    have "presets (collections (fst (bindToPreset h s)) ! a) = presets (?cs ! a) @ [p]"
      using nth_map_presets [OF m, of a] a by simp
    then have "p \<in> set (presets (collections (fst (bindToPreset h s)) ! a))" by simp
    moreover have "collections (fst (bindToPreset h s)) ! a \<in> set (collections (fst (bindToPreset h s)))"
      using a l by simp
    ultimately show ?thesis by (auto simp: holders_def filter_empty_conv)
  qed
  have 1: "(holders p (fst (bindToPreset h s)) = []) = (bound_count p s = 1)"
  proof (cases "w = a")
    case True
    have "bound_count p (fst (bindToPreset h s)) = bound_count p s1"
      unfolding same [OF True] by simp
    moreover have "(bound_count p s1 = 0) = (bound_count p s = 1)" using b1 by arith
    ultimately show ?thesis by (simp add: holders_empty_iff)
  next
    case False
    from held [OF False] two [OF False] show ?thesis by simp
  qed
  have wa: "w = a" if "bound_count p s = 1" using two that by fastforce
  have c: "count_list (presets (?cs ! a)) p = 1" if "bound_count p s = 1"
    using bound_count_ge [OF a, of p] ca that by simp
  have 2: "bindToPreset h s
          = (fst (renderSliderConfigs h s1), SaveSettingsDebounced # snd (renderSliderConfigs h s1))
        \<and> map presets (collections (fst (bindToPreset h s)))
            = (map presets (collections s))[a := remove1 p (presets (collections s ! a))]
        \<and> BindToggle False \<in> set (snd (bindToPreset h s))
        \<and> map active (collections (fst (bindToPreset h s))) = map active (collections s)
        \<and> map name (collections (fst (bindToPreset h s))) = map name (collections s)"
    if one: "bound_count p s = 1"
  proof -
    note eq = same [OF wa [OF one]]
    have m: "map presets (collections (fst (bindToPreset h s)))
       = (map presets ?cs)[a := remove1 p (presets (?cs ! a))]"
      unfolding eq by (simp add: assms(5) map_update)
    have f1: "findIndex active (collections s1) = Some a"
      using findIndex_map [of active "collections s1"] findIndex_map [of active ?cs] assms(3)
      by (simp add: assms(5) map_update_same)
    have "p \<notin> set (presets (collections s1 ! a))"
      using a c [OF one] by (simp add: assms(5) count_list_0_iff [symmetric] count_list_remove1)
    then have "BindToggle False \<in> set (snd (renderSliderConfigs h s1))"
      using f1 assms(1) by (simp add: renderSliderConfigs_def Let_def case_prod_beta)
    then have t: "BindToggle False \<in> set (snd (bindToPreset h s))" unfolding eq by simp
    have ac: "map active (collections (fst (bindToPreset h s))) = map active ?cs"
      unfolding eq by (simp add: assms(5) map_update_same)
    have nm: "map name (collections (fst (bindToPreset h s))) = map name ?cs"
      unfolding eq by (simp add: assms(5) map_update_same)
    from eq m t ac nm show ?thesis by blast
  qed
  have 3: "SaveSettingsDebounced \<in> set (snd (bindToPreset h s))"
  proof (cases "w = a")
    case True
    show ?thesis unfolding same [OF True] by simp
  next
    case False
    then show ?thesis by (rule other_save)
  qed
  have 4: "bound_count p s = 1" if "reachable s"
  proof -
    have "presets_once s" using that by (rule reachable_presets_once)
    then have "bound_count p s \<le> 1" by (simp add: presets_once_count)
    moreover have "count_list (presets (?cs ! a)) p \<le> bound_count p s" using a by (rule bound_count_ge)
    ultimately show ?thesis using ca by simp
  qed
  from 1 2 3 4 show ?thesis by blast
qed

lemma init_fresh:
  "fst (init example_host Absent)
     = \<lparr>collections = [\<lparr>active = True, name = ''Default'', sliders = [], presets = []\<rparr>]\<rparr>"
  by (simp add: init_def case_prod_beta fst_renderSliderConfigs with_sliders_def getSettings_def
      defaultSettings_def)

lemma bound_after_fresh:
  "fst (bindToPreset example_host (fst (init example_host Absent)))
     = \<lparr>collections = [\<lparr>active = True, name = ''Default'', sliders = [], presets = [''P1'']\<rparr>]\<rparr>"
  unfolding init_fresh
  by (simp add: bindToPreset_def running_def getSettings_def Let_def case_prod_beta
      fst_renderSliderConfigs with_sliders_def)

text \<open>
  A fresh install with the preset \<open>P1\<close> bound to the collection \<open>Default\<close>, and the button
  pressed again.
\<close>

theorem bind_toggles_off_witness:
  "reachable (fst (bindToPreset example_host (fst (init example_host Absent))))
   \<and> bound_count ''P1'' (fst (bindToPreset example_host (fst (init example_host Absent)))) = 1
   \<and> map presets (collections (fst (bindToPreset example_host (fst (init example_host Absent)))))
       = [[''P1'']]
   \<and> map presets (collections (fst (bindToPreset example_host
         (fst (bindToPreset example_host (fst (init example_host Absent)))))))
       = [[]]
   \<and> holders ''P1'' (fst (bindToPreset example_host
         (fst (bindToPreset example_host (fst (init example_host Absent)))))) = []
   \<and> BindToggle False \<in> set (snd (bindToPreset example_host
         (fst (bindToPreset example_host (fst (init example_host Absent))))))
   \<and> SaveSettingsDebounced \<in> set (snd (bindToPreset example_host
         (fst (bindToPreset example_host (fst (init example_host Absent))))))"
proof -
  let ?s = "fst (bindToPreset example_host (fst (init example_host Absent)))"
  have r: "reachable ?s" by (rule reachable.bound) (rule reachable.fresh)
  have p: "''P1'' = preset_settings_openai example_host" by simp
  have n: "''P1'' \<noteq> []" by simp
  have f: "findIndex active (collections ?s) = Some 0" by (simp add: bound_after_fresh)
  have m: "''P1'' \<in> set (presets (collections ?s ! 0))" by (simp add: bound_after_fresh)
  have b: "bound_count ''P1'' ?s = 1" by (simp add: bound_after_fresh bound_count_def)
  note t = bind_toggles_off [OF p n f m refl]
  have 1: "map presets (collections ?s) = [[''P1'']]" by (simp add: bound_after_fresh)
  from t b have t2: "map presets (collections (fst (bindToPreset example_host ?s)))
       = (map presets (collections ?s))[0 := remove1 ''P1'' (presets (collections ?s ! 0))]"
    and t3: "holders ''P1'' (fst (bindToPreset example_host ?s)) = []"
    and t4: "BindToggle False \<in> set (snd (bindToPreset example_host ?s))"
    and t5: "SaveSettingsDebounced \<in> set (snd (bindToPreset example_host ?s))"
    by blast+
  have 2: "map presets (collections (fst (bindToPreset example_host ?s))) = [[]]"
    using t2 by (simp add: bound_after_fresh)
  from r b 1 2 t3 t4 t5 show ?thesis by blast
qed

text \<open>
  Claim C10 as the specification words it fails in a loaded state in which the preset name
  is listed more than once. With \<open>P1\<close> in the lists of \<open>A\<close> and of the active collection
  \<open>B\<close>, \<open>bindToPreset\<close> takes \<open>P1\<close> from \<open>A\<close> and adds it to \<open>B\<close>, whose list then has it
  twice. With \<open>P1\<close> twice in the list of the only collection, one entry stays.
\<close>

theorem active_stays_bound:
  "findIndex active (collections
       \<lparr>collections = [collection_of False ''A'' [] [''P1''], collection_of True ''B'' [] [''P1'']]\<rparr>)
     = Some 1
   \<and> ''P1'' \<in> set (presets (collections
       \<lparr>collections = [collection_of False ''A'' [] [''P1''], collection_of True ''B'' [] [''P1'']]\<rparr> ! 1))
   \<and> map presets (collections (fst (bindToPreset example_host
       \<lparr>collections = [collection_of False ''A'' [] [''P1''], collection_of True ''B'' [] [''P1'']]\<rparr>)))
     = [[], [''P1'', ''P1'']]
   \<and> holders ''P1'' (fst (bindToPreset example_host
       \<lparr>collections = [collection_of False ''A'' [] [''P1''], collection_of True ''B'' [] [''P1'']]\<rparr>))
     \<noteq> []
   \<and> map presets (collections (fst (bindToPreset example_host
       \<lparr>collections = [collection_of True ''B'' [] [''P1'', ''P1'']]\<rparr>)))
     = [[''P1'']]
   \<and> holders ''P1'' (fst (bindToPreset example_host
       \<lparr>collections = [collection_of True ''B'' [] [''P1'', ''P1'']]\<rparr>))
     \<noteq> []"
proof -
  let ?s = "\<lparr>collections = [collection_of False ''A'' [] [''P1''], collection_of True ''B'' [] [''P1'']]\<rparr>"
  let ?u = "\<lparr>collections = [collection_of True ''B'' [] [''P1'', ''P1'']]\<rparr>"
  have r: "running ?s = ?s" by (simp add: running_def getSettings_def collection_of_def)
  have ru: "running ?u = ?u" by (simp add: running_def getSettings_def collection_of_def)
  have 1: "findIndex active (collections ?s) = Some 1" by (simp add: collection_of_def)
  have 2: "''P1'' \<in> set (presets (collections ?s ! 1))" by (simp add: collection_of_def)
  have 3: "map presets (collections (fst (bindToPreset example_host ?s))) = [[], [''P1'', ''P1'']]"
    by (simp add: bindToPreset_def r Let_def case_prod_beta) (simp add: collection_of_def)
  have 4: "holders ''P1'' (fst (bindToPreset example_host ?s)) \<noteq> []"
  proof -
    have "bound_count ''P1'' (fst (bindToPreset example_host ?s)) = 2"
      using bound_count_concat [of "''P1''" "fst (bindToPreset example_host ?s)"] by (simp add: 3)
    then show ?thesis by (simp add: holders_empty_iff)
  qed
  have 5: "map presets (collections (fst (bindToPreset example_host ?u))) = [[''P1'']]"
    by (simp add: bindToPreset_def ru Let_def case_prod_beta apsnd_def map_prod_def)
      (simp add: collection_of_def)
  have 6: "holders ''P1'' (fst (bindToPreset example_host ?u)) \<noteq> []"
  proof -
    have "bound_count ''P1'' (fst (bindToPreset example_host ?u)) = 1"
      using bound_count_concat [of "''P1''" "fst (bindToPreset example_host ?u)"] by (simp add: 5)
    then show ?thesis by (simp add: holders_empty_iff)
  qed
  from 1 2 3 4 5 6 show ?thesis by blast
qed

end
